theory Spec2Isabelle
  imports Complex_Main
begin

section \<open>Floating-point values as the contouring code uses them\<close>

text \<open>
  A C++ \<open>double\<close> is a NaN, one of the two infinities, or a finite number, an IEEE 754
  binary64 value. A finite double is given by its value, a real; the sign of zero is
  not modelled. A NaN makes every comparison false and every arithmetic result a NaN.
  The result of an operation on finite doubles is the exact result rounded to the
  nearest double, a tie going to the even significand, and a result too large in
  magnitude becomes an infinity.
\<close>

datatype double = NaN | PInf | MInf | Fin real

text \<open>
  \<open>rint\<close> in the default rounding mode: the nearest integer, a tie going to the even
  neighbour.
\<close>

definition rint :: "real \<Rightarrow> int" where
  "rint x =
     (let f = \<lfloor>x\<rfloor>; d = x - of_int f
      in if d < 1 / 2 then f
         else if 1 / 2 < d then f + 1
         else if even f then f else f + 1)"

text \<open>
  Rounding to binary64. A positive real \<open>a\<close> lies in the binade of exponent
  \<open>\<lfloor>log 2 a\<rfloor>\<close>; below the smallest normal exponent -1022 the subnormal spacing
  applies. The doubles of that binade are the multiples of 2 to the power
  \<open>quantum_exp a\<close>, 52 binary places below the exponent, and \<open>round_mag a\<close> is the
  multiple nearest to \<open>a\<close>. \<open>rnd x\<close> rounds the magnitude of \<open>x\<close> and restores the sign;
  a magnitude that rounds to \<open>2 ^ 1024\<close> or more overflows.
\<close>

definition quantum_exp :: "real \<Rightarrow> int" where
  "quantum_exp a = max \<lfloor>log 2 a\<rfloor> (- 1022) - 52"

definition round_mag :: "real \<Rightarrow> real" where
  "round_mag a =
     (if a = 0 then 0
      else of_int (rint (a / 2 powi quantum_exp a)) * 2 powi quantum_exp a)"

definition huge :: real where
  "huge = 2 ^ 1024"

definition rnd :: "real \<Rightarrow> double" where
  "rnd x =
     (let r = round_mag \<bar>x\<bar>
      in if huge \<le> r then (if 0 < x then PInf else MInf)
         else Fin (if 0 \<le> x then r else - r))"

text \<open>The exponent of the binade, not below the smallest normal exponent.\<close>

definition bexp :: "real \<Rightarrow> int" where
  "bexp a = max \<lfloor>log 2 a\<rfloor> (- 1022)"

text \<open>A decimal literal of the source denotes the double nearest to it.\<close>

definition dlit :: "real \<Rightarrow> double" where
  "dlit x = rnd x"

fun disnan :: "double \<Rightarrow> bool" where
  "disnan NaN = True"
| "disnan PInf = False"
| "disnan MInf = False"
| "disnan (Fin x) = False"

fun disfinite :: "double \<Rightarrow> bool" where
  "disfinite NaN = False"
| "disfinite PInf = False"
| "disfinite MInf = False"
| "disfinite (Fin x) = True"

text \<open>\<open>fabs\<close>.\<close>

fun dabs :: "double \<Rightarrow> double" where
  "dabs NaN = NaN"
| "dabs PInf = PInf"
| "dabs MInf = PInf"
| "dabs (Fin x) = Fin \<bar>x\<bar>"

fun dneg :: "double \<Rightarrow> double" where
  "dneg NaN = NaN"
| "dneg PInf = MInf"
| "dneg MInf = PInf"
| "dneg (Fin x) = Fin (- x)"

text \<open>Multiplication: the rounded product; an infinity times zero is a NaN.\<close>

fun dmul :: "double \<Rightarrow> double \<Rightarrow> double" where
  "dmul NaN b = NaN"
| "dmul PInf NaN = NaN"
| "dmul PInf PInf = PInf"
| "dmul PInf MInf = MInf"
| "dmul PInf (Fin b) = (if b = 0 then NaN else if 0 < b then PInf else MInf)"
| "dmul MInf NaN = NaN"
| "dmul MInf PInf = MInf"
| "dmul MInf MInf = PInf"
| "dmul MInf (Fin b) = (if b = 0 then NaN else if 0 < b then MInf else PInf)"
| "dmul (Fin a) NaN = NaN"
| "dmul (Fin a) PInf = (if a = 0 then NaN else if 0 < a then PInf else MInf)"
| "dmul (Fin a) MInf = (if a = 0 then NaN else if 0 < a then MInf else PInf)"
| "dmul (Fin a) (Fin b) = rnd (a * b)"

text \<open>Addition: the rounded sum; the sum of the two opposite infinities is a NaN.\<close>

fun dadd :: "double \<Rightarrow> double \<Rightarrow> double" where
  "dadd NaN b = NaN"
| "dadd PInf NaN = NaN"
| "dadd PInf PInf = PInf"
| "dadd PInf MInf = NaN"
| "dadd PInf (Fin b) = PInf"
| "dadd MInf NaN = NaN"
| "dadd MInf PInf = NaN"
| "dadd MInf MInf = MInf"
| "dadd MInf (Fin b) = MInf"
| "dadd (Fin a) NaN = NaN"
| "dadd (Fin a) PInf = PInf"
| "dadd (Fin a) MInf = MInf"
| "dadd (Fin a) (Fin b) = rnd (a + b)"

definition dsub :: "double \<Rightarrow> double \<Rightarrow> double" where
  "dsub a b = dadd a (dneg b)"

text \<open>
  Division: the rounded quotient. Zero by zero and infinity by infinity are NaN. A
  finite nonzero number by zero is an infinity; its sign depends on the sign of the
  zero, which is taken positive.
\<close>

fun ddiv :: "double \<Rightarrow> double \<Rightarrow> double" where
  "ddiv NaN b = NaN"
| "ddiv PInf NaN = NaN"
| "ddiv PInf PInf = NaN"
| "ddiv PInf MInf = NaN"
| "ddiv PInf (Fin b) = (if 0 \<le> b then PInf else MInf)"
| "ddiv MInf NaN = NaN"
| "ddiv MInf PInf = NaN"
| "ddiv MInf MInf = NaN"
| "ddiv MInf (Fin b) = (if 0 \<le> b then MInf else PInf)"
| "ddiv (Fin a) NaN = NaN"
| "ddiv (Fin a) PInf = Fin 0"
| "ddiv (Fin a) MInf = Fin 0"
| "ddiv (Fin a) (Fin b) =
     (if b \<noteq> 0 then rnd (a / b)
      else if a = 0 then NaN else if 0 < a then PInf else MInf)"

text \<open>The comparison \<open>a > b\<close>: false as soon as one side is a NaN.\<close>

fun dgt :: "double \<Rightarrow> double \<Rightarrow> bool" where
  "dgt NaN b = False"
| "dgt PInf NaN = False"
| "dgt PInf PInf = False"
| "dgt PInf MInf = True"
| "dgt PInf (Fin b) = True"
| "dgt MInf b = False"
| "dgt (Fin a) NaN = False"
| "dgt (Fin a) PInf = False"
| "dgt (Fin a) MInf = True"
| "dgt (Fin a) (Fin b) = (b < a)"

text \<open>The comparison \<open>a <= b\<close>.\<close>

fun dle :: "double \<Rightarrow> double \<Rightarrow> bool" where
  "dle NaN b = False"
| "dle PInf NaN = False"
| "dle PInf PInf = True"
| "dle PInf MInf = False"
| "dle PInf (Fin b) = False"
| "dle MInf NaN = False"
| "dle MInf PInf = True"
| "dle MInf MInf = True"
| "dle MInf (Fin b) = True"
| "dle (Fin a) NaN = False"
| "dle (Fin a) PInf = True"
| "dle (Fin a) MInf = False"
| "dle (Fin a) (Fin b) = (a \<le> b)"

text \<open>\<open>rint\<close> of a double; the nearest integer to a double is a double.\<close>

fun drint :: "double \<Rightarrow> double" where
  "drint NaN = NaN"
| "drint PInf = PInf"
| "drint MInf = MInf"
| "drint (Fin x) = Fin (of_int (rint x))"

text \<open>
  The conversion \<open>(int)\<close> of a double truncates toward zero. It is undefined for a NaN,
  for an infinity and for a value outside the range of a 32-bit \<open>int\<close>: \<open>None\<close>.
\<close>

definition trunc :: "real \<Rightarrow> int" where
  "trunc x = (if 0 \<le> x then \<lfloor>x\<rfloor> else \<lceil>x\<rceil>)"

fun double_to_int :: "double \<Rightarrow> int option" where
  "double_to_int NaN = None"
| "double_to_int PInf = None"
| "double_to_int MInf = None"
| "double_to_int (Fin x) =
     (if - 2147483648 \<le> trunc x \<and> trunc x \<le> 2147483647 then Some (trunc x) else None)"

section \<open>The split-point table and \<open>splitpoint\<close>\<close>

text \<open>What stops the program: undefined behaviour and a failed assertion.\<close>

datatype fault =
  UndefinedConversion
| IndexOutOfBounds int
| NullDereference
| WildPointer nat
| AssertionFailed

text \<open>
  \<open>splittab\<close>, 65 entries. The entries are \<open>float\<close> in the source; they are taken here
  as the decimal numbers written there.
\<close>

definition splittab :: "real list" where
  "splittab =
   [0.2113,0.2123,0.2134,0.2145,0.2156,0.2167,0.2179,0.2191,0.2204,0.2216,0.2229,0.2244,0.2257,
    0.2272,0.2288,0.2303,0.2319,0.2337,0.2354,0.2372,0.2390,0.2410,0.2430,0.2451,0.2472,0.2495,
    0.2519,0.2544,0.2570,0.2597,0.2625,0.2654,0.2684,0.2716,0.2750,0.2786,0.2823,0.2861,0.2902,
    0.2945,0.2990,0.3038,0.3088,0.3141,0.3198,0.3258,0.3320,0.3386,0.3454,0.3527,0.3605,0.3687,
    0.3773,0.3862,0.3955,0.4053,0.4153,0.4256,0.4362,0.4469,0.4577,0.4684,0.4792,0.4897,0.5000]"

text \<open>
  The pieces of the third branch of \<open>splitpoint\<close>: which clamp value is the bigger in
  magnitude, the divisor and the ratio formed from it, and the table index
  \<open>(int)rint((ratio+1)*32)\<close>.
\<close>

definition whichbig :: "double \<Rightarrow> double \<Rightarrow> bool" where
  "whichbig leftclamp rightclamp = dgt (dabs rightclamp) (dabs leftclamp)"

definition split_divisor :: "double \<Rightarrow> double \<Rightarrow> double" where
  "split_divisor leftclamp rightclamp =
     (if whichbig leftclamp rightclamp then rightclamp else leftclamp)"

definition split_ratio :: "double \<Rightarrow> double \<Rightarrow> double" where
  "split_ratio leftclamp rightclamp =
     (if whichbig leftclamp rightclamp then ddiv leftclamp rightclamp
      else ddiv rightclamp leftclamp)"

definition split_index :: "double \<Rightarrow> double \<Rightarrow> int option" where
  "split_index leftclamp rightclamp =
     double_to_int (drint (dmul (dadd (split_ratio leftclamp rightclamp) (Fin 1)) (Fin 32)))"

definition out_of_tolerance :: "double \<Rightarrow> double \<Rightarrow> double \<Rightarrow> bool" where
  "out_of_tolerance leftclamp rightclamp tolerance =
     (dgt (dmul (dabs leftclamp) (Fin 27)) (dmul tolerance (Fin 23)) \<or>
      dgt (dmul (dabs rightclamp) (Fin 27)) (dmul tolerance (Fin 23)))"

text \<open>
  \<open>splitpoint\<close>. The macro \<open>CCHALONG\<close> comes from a header that is not among the sources;
  it is the first parameter. The result is a \<open>float\<close> in the source and a real here. An
  index that the conversion leaves undefined, or that falls outside the 65 entries, is
  a fault.
\<close>

definition splitpoint :: "real \<Rightarrow> double \<Rightarrow> double \<Rightarrow> double \<Rightarrow> fault + real" where
  "splitpoint cchalong leftclamp rightclamp tolerance =
     (if disnan leftclamp then Inr cchalong
      else if disnan rightclamp then Inr (1 - cchalong)
      else if out_of_tolerance leftclamp rightclamp tolerance then
        (case split_index leftclamp rightclamp of
           None \<Rightarrow> Inl UndefinedConversion
         | Some k \<Rightarrow>
             if 0 \<le> k \<and> k < 65 then
               (let sp = splittab ! nat k
                in Inr (if whichbig leftclamp rightclamp then 1 - sp else sp))
             else Inl (IndexOutOfBounds k))
      else Inr 0)"

section \<open>Points, polylines and messages\<close>

text \<open>
  Modelled from the spec: the classes \<open>xy\<close> and \<open>xyz\<close> are not among the sources. A point
  has double coordinates; \<open>isnan\<close> holds when some coordinate is a NaN, \<open>isfinite\<close> when
  every coordinate is finite, and \<open>!=\<close> compares the coordinates as doubles, so that a
  NaN differs from everything.
\<close>

datatype xy = XY double double

datatype xyz = XYZ double double double

fun xy_isnan :: "xy \<Rightarrow> bool" where
  "xy_isnan (XY x y) = (disnan x \<or> disnan y)"

fun xy_isfinite :: "xy \<Rightarrow> bool" where
  "xy_isfinite (XY x y) = (disfinite x \<and> disfinite y)"

definition xy_ne :: "xy \<Rightarrow> xy \<Rightarrow> bool" where
  "xy_ne a b = (xy_isnan a \<or> xy_isnan b \<or> a \<noteq> b)"

fun xyz_isfinite :: "xyz \<Rightarrow> bool" where
  "xyz_isfinite (XYZ x y z) = (disfinite x \<and> disfinite y \<and> disfinite z)"

fun xy_of :: "xyz \<Rightarrow> xy" where
  "xy_of (XYZ x y z) = XY x y"

fun elev_of :: "xyz \<Rightarrow> double" where
  "elev_of (XYZ x y z) = z"

fun xyz_midpoint :: "xyz \<Rightarrow> xyz \<Rightarrow> xyz" where
  "xyz_midpoint (XYZ x1 y1 z1) (XYZ x2 y2 z2) =
     XYZ (ddiv (dadd x1 x2) (Fin 2)) (ddiv (dadd y1 y2) (Fin 2)) (ddiv (dadd z1 z2) (Fin 2))"

text \<open>
  Modelled from the spec: the class \<open>polyline\<close> is not among the sources. A polyline is
  an ordered sequence of points tagged with one elevation and an open/closed flag; a
  new polyline is empty and closed, \<open>insert\<close> without a position appends, and \<open>open\<close>
  sets the flag.
\<close>

record polyline =
  elevation :: double
  points :: "xy list"
  isopen :: bool

definition new_polyline :: "double \<Rightarrow> polyline" where
  "new_polyline elev = \<lparr>elevation = elev, points = [], isopen = False\<rparr>"

definition pl_insert :: "xy \<Rightarrow> polyline \<Rightarrow> polyline" where
  "pl_insert p c = c\<lparr>points := points c @ [p]\<rparr>"

definition pl_open :: "polyline \<Rightarrow> polyline" where
  "pl_open c = c\<lparr>isopen := True\<rparr>"

text \<open>What the code writes to \<open>cerr\<close> and \<open>cout\<close>, in order.\<close>

datatype msg =
  TracingStartsOnNan
| ProceedFailedAt nat
| RepeatedContourcept nat nat
| EdgeDidntChange
| ProceedFailed
| StoppedInMiddleOfTriangle nat
| MidptriIsNull

section \<open>The mesh as the contouring code reads it\<close>

text \<open>
  The classes \<open>edge\<close>, \<open>triangle\<close> and \<open>pointlist\<close> are not among the sources. An edge
  has its two triangle pointers (a triangle is named by a number, a null pointer is
  \<open>None\<close>) and the answer of \<open>isinterior()\<close>. What the methods of a triangle and
  \<open>edge::othertri\<close> return is a parameter of the mesh; \<open>subdiv_size\<close> is
  \<open>subdiv.size()\<close>.
\<close>

record edge =
  tria :: "nat option"
  trib :: "nat option"
  isinterior :: bool

record mesh =
  edges :: "edge list"
  subdir :: "nat \<Rightarrow> nat \<Rightarrow> int"
  crosses :: "nat \<Rightarrow> int \<Rightarrow> double \<Rightarrow> bool"
  upleft :: "nat \<Rightarrow> int \<Rightarrow> bool"
  proceed :: "nat \<Rightarrow> int \<Rightarrow> double \<Rightarrow> int"
  contourcept :: "nat \<Rightarrow> int \<Rightarrow> double \<Rightarrow> xy"
  edgepart :: "nat \<Rightarrow> int \<Rightarrow> nat"
  othertri :: "nat \<Rightarrow> nat \<Rightarrow> nat option"
  subdiv_size :: "nat \<Rightarrow> nat"

text \<open>
  A directed handle is the \<open>uintptr_t\<close> \<open>j + (uintptr_t)&pts.edges[i]\<close>. The code only adds
  \<open>j < 3\<close> to an edge's address, masks with \<open>-4\<close> and \<open>3\<close>, and compares handles with each
  other and with 0, so all that matters of the addresses is that they are distinct
  nonzero multiples of 4: edge \<open>i\<close> is put at address \<open>4 * (i + 1)\<close>. Then \<open>ep & -4\<close> is
  \<open>ep - ep mod 4\<close> and \<open>ep & 3\<close> is \<open>ep mod 4\<close>. Dereferencing \<open>(edge *)(ep & -4)\<close> is a
  fault when the address is that of no edge of the mesh.
\<close>

definition edge_address :: "nat \<Rightarrow> nat" where
  "edge_address i = 4 * (i + 1)"

definition handle_side :: "nat \<Rightarrow> nat" where
  "handle_side ep = ep mod 4"

definition handle_edge :: "mesh \<Rightarrow> nat \<Rightarrow> fault + nat" where
  "handle_edge M ep =
     (let a = ep - ep mod 4
      in if a = 0 then Inl NullDereference
         else if a div 4 - 1 < length (edges M) then Inr (a div 4 - 1)
         else Inl (WildPointer ep))"

text \<open>
  Modelled from the spec: \<open>edge::mark\<close>, \<open>edge::ismarked\<close> and \<open>pointlist::clearmarks\<close> are
  not among the sources. An edge carries one mark bit per side; the marks of the mesh
  are the set of the pairs (edge, side) whose bit is set. \<open>markcalls\<close> records the
  handles passed to \<open>mark\<close> since the marks were last cleared, one entry for each call,
  in order.
\<close>

record marking =
  marks :: "(nat \<times> nat) set"
  markcalls :: "nat list"

definition clearmarks :: "marking \<Rightarrow> marking" where
  "clearmarks K = \<lparr>marks = {}, markcalls = []\<rparr>"

definition mark :: "mesh \<Rightarrow> nat \<Rightarrow> marking \<Rightarrow> fault + marking" where
  "mark M ep K =
     (case handle_edge M ep of
        Inl f \<Rightarrow> Inl f
      | Inr i \<Rightarrow> Inr (K\<lparr>marks := insert (i, handle_side ep) (marks K),
                          markcalls := markcalls K @ [ep]\<rparr>))"

definition ismarked :: "mesh \<Rightarrow> nat \<Rightarrow> marking \<Rightarrow> fault + bool" where
  "ismarked M ep K =
     (case handle_edge M ep of
        Inl f \<Rightarrow> Inl f
      | Inr i \<Rightarrow> Inr ((i, handle_side ep) \<in> marks K))"

section \<open>\<open>contstarts\<close>: the seeds of one elevation\<close>

text \<open>The loop over \<open>j\<close>: the three handles of edge \<open>i\<close>, seen from triangle \<open>t\<close>.\<close>

fun scan_sides :: "mesh \<Rightarrow> double \<Rightarrow> nat \<Rightarrow> nat \<Rightarrow> nat \<Rightarrow> nat list \<Rightarrow> nat list \<Rightarrow> nat list" where
  "scan_sides M elev io i t [] ret = ret"
| "scan_sides M elev io i t (j # js) ret =
     (let ep = j + edge_address i;
          sd = subdir M t ep
      in scan_sides M elev io i t js
           (if crosses M t sd elev \<and> (io \<noteq> 0 \<or> upleft M t sd) then ret @ [ep] else ret))"

text \<open>
  The loop over \<open>i\<close> for one value of \<open>io\<close>. The edge is looked at when \<open>io\<close> equals
  \<open>isinterior()\<close>; its triangle is \<open>tria\<close>, or \<open>trib\<close> when \<open>tria\<close> is null, and the
  assertion fails when both are null.
\<close>

fun scan_edges :: "mesh \<Rightarrow> double \<Rightarrow> nat \<Rightarrow> nat list \<Rightarrow> nat list \<Rightarrow> fault + nat list" where
  "scan_edges M elev io [] ret = Inr ret"
| "scan_edges M elev io (i # is) ret =
     (if (io \<noteq> 0) = isinterior (edges M ! i) then
        (case (case tria (edges M ! i) of None \<Rightarrow> trib (edges M ! i) | Some t \<Rightarrow> Some t) of
           None \<Rightarrow> Inl AssertionFailed
         | Some t \<Rightarrow> scan_edges M elev io is (scan_sides M elev io i t [0, 1, 2] ret))
      else scan_edges M elev io is ret)"

definition contstarts :: "mesh \<Rightarrow> double \<Rightarrow> fault + nat list" where
  "contstarts M elev =
     (case scan_edges M elev 0 [0 ..< length (edges M)] [] of
        Inl f \<Rightarrow> Inl f
      | Inr ret \<Rightarrow> scan_edges M elev 1 [0 ..< length (edges M)] ret)"

text \<open>
  The seed rule in closed form, for the comparison with the loops. \<open>seed_triangle\<close> is
  the triangle from which an edge is looked at; \<open>edge_handles\<close> lists the handles of
  the edges whose \<open>isinterior()\<close> is \<open>b\<close>, in storage order.
\<close>

definition seed_triangle :: "mesh \<Rightarrow> nat \<Rightarrow> nat option" where
  "seed_triangle M i =
     (case tria (edges M ! i) of None \<Rightarrow> trib (edges M ! i) | Some t \<Rightarrow> Some t)"

definition edge_handles :: "mesh \<Rightarrow> bool \<Rightarrow> (nat \<times> nat) list" where
  "edge_handles M b =
     concat (map (\<lambda>i. map (\<lambda>j. (i, j + edge_address i)) [0, 1, 2])
                 (filter (\<lambda>i. isinterior (edges M ! i) = b) [0 ..< length (edges M)]))"

definition is_crossing :: "mesh \<Rightarrow> double \<Rightarrow> nat \<times> nat \<Rightarrow> bool" where
  "is_crossing M elev h =
     (case seed_triangle M (fst h) of
        None \<Rightarrow> False
      | Some t \<Rightarrow> crosses M t (subdir M t (snd h)) elev)"

definition is_upleft :: "mesh \<Rightarrow> nat \<times> nat \<Rightarrow> bool" where
  "is_upleft M h =
     (case seed_triangle M (fst h) of
        None \<Rightarrow> False
      | Some t \<Rightarrow> upleft M t (subdir M t (snd h)))"

text \<open>What the loops select: on exterior edges the crossings classified upleft, on
  interior edges every crossing.\<close>

definition seeds_selected :: "mesh \<Rightarrow> double \<Rightarrow> nat list" where
  "seeds_selected M elev =
     map snd (filter (\<lambda>h. is_crossing M elev h \<and> is_upleft M h) (edge_handles M False))
     @ map snd (filter (\<lambda>h. is_crossing M elev h) (edge_handles M True))"

text \<open>The rule in the words of the specification: on exterior edges every crossing, on
  interior edges the crossings classified upleft.\<close>

definition seeds_specified :: "mesh \<Rightarrow> double \<Rightarrow> nat list" where
  "seeds_specified M elev =
     map snd (filter (\<lambda>h. is_crossing M elev h) (edge_handles M False))
     @ map snd (filter (\<lambda>h. is_crossing M elev h \<and> is_upleft M h) (edge_handles M True))"

section \<open>\<open>smoothcontours\<close>: the tolerance of a pass and the probe of a segment\<close>

text \<open>
  The two passes are numbered by \<open>k\<close>, 0 and then 1. At the start of a pass the contour
  is smoothed when \<open>k\<close> is nonzero; \<open>smooth\<close>, a method of the absent class \<open>polyline\<close>
  that turns the straight segments into spiral arcs, is a parameter.
\<close>

definition pass_contour :: "('c \<Rightarrow> 'c) \<Rightarrow> nat \<Rightarrow> 'c \<Rightarrow> 'c" where
  "pass_contour smooth k c = (if k \<noteq> 0 then smooth c else c)"

text \<open>
  \<open>wide=((sz>2*origsz)?(sz/(double)origsz):1)*(k?0.5:0.1)\<close>, and the tolerance
  \<open>conterval*wide\<close> that a pass hands to \<open>splitpoint\<close>.
\<close>

definition wide :: "nat \<Rightarrow> int \<Rightarrow> int \<Rightarrow> double" where
  "wide k sz origsz =
     dmul (if 2 * origsz < sz then ddiv (Fin (of_int sz)) (Fin (of_int origsz)) else Fin 1)
          (if k \<noteq> 0 then dlit 0.5 else dlit 0.1)"

definition pass_tolerance :: "double \<Rightarrow> nat \<Rightarrow> int \<Rightarrow> int \<Rightarrow> double" where
  "pass_tolerance conterval k sz origsz = dmul conterval (wide k sz origsz)"

text \<open>
  What \<open>smoothcontours\<close> asks of the point list: the triangle that the quad index finds
  for a point (\<open>qinx.findt\<close>, null when there is none), whether a triangle contains a
  point (\<open>triangle::in\<close>), the elevation function of a triangle
  (\<open>triangle::elevation\<close>) and the elevation query of the whole mesh
  (\<open>pointlist::elevation\<close>). None of them is among the sources; they are parameters.
\<close>

record surface =
  findt :: "xy \<Rightarrow> nat option"
  tri_in :: "nat \<Rightarrow> xy \<Rightarrow> bool"
  tri_elevation :: "nat \<Rightarrow> xy \<Rightarrow> double"
  pl_elevation :: "xy \<Rightarrow> double"

text \<open>
  The split fraction of a visited segment whose sample points \<open>lpt\<close> and \<open>rpt\<close> are
  finite, with what is written to \<open>cerr\<close>. \<open>start\<close> and \<open>end\<close> are the ends of the
  spiral arc, \<open>wd\<close> is \<open>wide\<close>. The debugging print for one particular arc is left out.
\<close>

definition probe_segment ::
  "real \<Rightarrow> surface \<Rightarrow> double \<Rightarrow> double \<Rightarrow> xyz \<Rightarrow> xyz \<Rightarrow> xyz \<Rightarrow> xyz \<Rightarrow> (fault + real) \<times> msg list" where
  "probe_segment cchalong S conterval wd start end lpt rpt =
     (case findt S (xy_of (xyz_midpoint start end)) of
        None \<Rightarrow> (Inr 0.5, [MidptriIsNull])
      | Some midptri \<Rightarrow>
          if tri_in S midptri (xy_of start) \<and> tri_in S midptri (xy_of end) \<and>
             \<not> (tri_in S midptri (xy_of lpt) \<and> tri_in S midptri (xy_of rpt))
          then (splitpoint cchalong
                  (dsub (elev_of lpt) (pl_elevation S (xy_of lpt)))
                  (dsub (elev_of rpt) (pl_elevation S (xy_of rpt)))
                  (Fin 0), [])
          else (splitpoint cchalong
                  (dsub (elev_of lpt) (tri_elevation S midptri (xy_of lpt)))
                  (dsub (elev_of rpt) (tri_elevation S midptri (xy_of rpt)))
                  (dmul conterval wd), []))"

definition visit_segment ::
  "real \<Rightarrow> surface \<Rightarrow> double \<Rightarrow> nat \<Rightarrow> int \<Rightarrow> int \<Rightarrow> xyz \<Rightarrow> xyz \<Rightarrow> xyz \<Rightarrow> xyz
     \<Rightarrow> ((fault + real) \<times> msg list) option" where
  "visit_segment cchalong S conterval k sz origsz start end lpt rpt =
     (if xyz_isfinite lpt \<and> xyz_isfinite rpt
      then Some (probe_segment cchalong S conterval (wide k sz origsz) start end lpt rpt)
      else None)"

text \<open>
  A straight segment from (0,0) to (3,0) at elevation 0 with its sample points at (1,0)
  and (2,0), and three surfaces: one whose index finds no triangle; one whose triangle 0
  contains every point but the end of the segment; one whose triangle 0 contains every
  point but the left sample point. On the last two the triangle's own elevation is 0
  everywhere and the mesh-wide elevation is 10 everywhere.
\<close>

definition seg_start :: xyz where "seg_start = XYZ (Fin 0) (Fin 0) (Fin 0)"
definition seg_end :: xyz where "seg_end = XYZ (Fin 3) (Fin 0) (Fin 0)"
definition seg_lpt :: xyz where "seg_lpt = XYZ (Fin 1) (Fin 0) (Fin 0)"
definition seg_rpt :: xyz where "seg_rpt = XYZ (Fin 2) (Fin 0) (Fin 0)"

definition S_null :: surface where
  "S_null = \<lparr>findt = (\<lambda>p. None), tri_in = (\<lambda>t p. False),
             tri_elevation = (\<lambda>t p. Fin 0), pl_elevation = (\<lambda>p. Fin 10)\<rparr>"

definition S_part :: surface where
  "S_part = \<lparr>findt = (\<lambda>p. Some 0), tri_in = (\<lambda>t p. p \<noteq> XY (Fin 3) (Fin 0)),
             tri_elevation = (\<lambda>t p. Fin 0), pl_elevation = (\<lambda>p. Fin 10)\<rparr>"

definition S_bulge :: surface where
  "S_bulge = \<lparr>findt = (\<lambda>p. Some 0), tri_in = (\<lambda>t p. p \<noteq> XY (Fin 1) (Fin 0)),
              tri_elevation = (\<lambda>t p. Fin 0), pl_elevation = (\<lambda>p. Fin 10)\<rparr>"

text \<open>
  A mesh of two edges for the seed rule: edge 0 is exterior, edge 1 interior; the contour
  crosses side 0 of each (handles 4 and 8), and no crossing is classified upleft.
\<close>

definition M_seed :: mesh where
  "M_seed =
     \<lparr>edges = [\<lparr>tria = Some 0, trib = None, isinterior = False\<rparr>,
               \<lparr>tria = Some 0, trib = Some 1, isinterior = True\<rparr>],
      subdir = (\<lambda>t ep. int ep),
      crosses = (\<lambda>t sd elev. sd = 4 \<or> sd = 8),
      upleft = (\<lambda>t sd. False),
      proceed = (\<lambda>t sd elev. - 1),
      contourcept = (\<lambda>t sd elev. XY (Fin 0) (Fin 0)),
      edgepart = (\<lambda>t sd. 0),
      othertri = (\<lambda>i t. None),
      subdiv_size = (\<lambda>t. 0)\<rparr>"

text \<open>The handles that one pass selects on edge \<open>i\<close>.\<close>

definition edge_seeds :: "mesh \<Rightarrow> double \<Rightarrow> nat \<Rightarrow> nat \<Rightarrow> nat list" where
  "edge_seeds M elev io i =
     map snd (filter (\<lambda>h. is_crossing M elev h \<and> (io \<noteq> 0 \<or> is_upleft M h))
                (map (\<lambda>j. (i, j + edge_address i)) [0, 1, 2]))"

section \<open>\<open>trace\<close>: following a contour from a seed\<close>

text \<open>
  The inner loop of \<open>trace\<close> walks inside one triangle. Its variables are \<open>subedge\<close>,
  \<open>subnext\<close>, the counter \<open>i\<close>, \<open>lastcept\<close>, the polyline \<open>ret\<close> and the output written so
  far; \<open>w_steps\<close> counts how many times the body of the loop has run.
\<close>

record walk =
  w_subedge :: int
  w_subnext :: int
  w_i :: nat
  w_lastcept :: xy
  w_ret :: polyline
  w_log :: "msg list"
  w_steps :: nat

text \<open>The body of the inner loop.\<close>

definition walk_step :: "mesh \<Rightarrow> nat \<Rightarrow> double \<Rightarrow> nat \<Rightarrow> walk \<Rightarrow> walk" where
  "walk_step M tri elev edgep w =
     (let subnext = proceed M tri (w_subedge w) elev;
          w1 = w\<lparr>w_subnext := subnext, w_steps := Suc (w_steps w)\<rparr>
      in if 0 \<le> subnext then
           (let log1 = (if subnext = w_subedge w
                        then w_log w @ [ProceedFailedAt (length (points (w_ret w)))]
                        else w_log w);
                thiscept = contourcept M tri subnext elev
            in if xy_isfinite thiscept then
                 (if xy_ne thiscept (w_lastcept w)
                  then w1\<lparr>w_subedge := subnext, w_lastcept := thiscept,
                          w_ret := pl_insert thiscept (w_ret w), w_log := log1\<rparr>
                  else w1\<lparr>w_subedge := subnext, w_lastcept := thiscept,
                          w_log := log1 @ [RepeatedContourcept edgep (length (points (w_ret w)))]\<rparr>)
               else w1\<lparr>w_subedge := subnext, w_log := log1\<rparr>)
         else w1)"

lemma walk_step_i: "w_i (walk_step M tri elev edgep w) = w_i w"
  by (simp add: walk_step_def Let_def)

text \<open>\<open>do { ... } while (subnext>=0 && ++i<256)\<close>.\<close>

function inner_walk :: "mesh \<Rightarrow> nat \<Rightarrow> double \<Rightarrow> nat \<Rightarrow> walk \<Rightarrow> walk" where
  "inner_walk M tri elev edgep w =
     (let w' = walk_step M tri elev edgep w
      in if 0 \<le> w_subnext w' then
           (if Suc (w_i w') < 256
            then inner_walk M tri elev edgep (w'\<lparr>w_i := Suc (w_i w')\<rparr>)
            else w'\<lparr>w_i := Suc (w_i w')\<rparr>)
         else w')"
  by pat_completeness auto
termination
  by (relation "measure (\<lambda>(M, tri, elev, edgep, w). 256 - w_i w)") (auto simp: walk_step_i)

declare inner_walk.simps [simp del]

text \<open>
  The variables of the outer loop of \<open>trace\<close> that live from one turn to the next.
  \<open>wasmarked\<close> is not initialised in the source; it is assigned before it is read.
  \<open>t_reached\<close> lists the handles that the walk has come to, in order: the seed, and
  every nonzero handle that \<open>edgepart\<close> gave for the sub-segment where an inner walk
  ended.
\<close>

record tstate =
  t_edgep :: nat
  t_tri :: nat
  t_ntri :: "nat option"
  t_wasmarked :: bool
  t_lastcept :: xy
  t_ret :: polyline
  t_marking :: marking
  t_log :: "msg list"
  t_reached :: "nat list"

text \<open>
  One turn of the outer loop. After the inner walk the exit sub-segment is mapped to
  its handle. When the handle did not change, \<open>proceed\<close> is called once more, which only
  shows in the output. A zero handle ends the walk with a null \<open>ntri\<close>. Otherwise the
  crossing is inserted if the handle was not marked, the handle is marked in either
  case, and \<open>ntri\<close> is the other triangle of the edge.
\<close>

definition trace_body :: "mesh \<Rightarrow> double \<Rightarrow> xy \<Rightarrow> tstate \<Rightarrow> fault + tstate" where
  "trace_body M elev firstcept s =
     (let prevedgep = t_edgep s;
          tri = t_tri s;
          w = inner_walk M tri elev prevedgep
                \<lparr>w_subedge = subdir M tri prevedgep, w_subnext = 0, w_i = 0,
                 w_lastcept = t_lastcept s, w_ret = t_ret s, w_log = t_log s, w_steps = 0\<rparr>;
          edgep = edgepart M tri (w_subedge w);
          log1 = (if edgep = prevedgep then
                    w_log w @ [EdgeDidntChange] @
                    (let subedge = subdir M tri edgep;
                         subnext = proceed M tri subedge elev
                     in if 0 \<le> subnext \<and> subnext = subedge then [ProceedFailed] else [])
                  else w_log w)
      in if edgep = 0 then
           Inr (s\<lparr>t_edgep := edgep, t_ntri := None, t_lastcept := w_lastcept w,
                  t_ret := w_ret w,
                  t_log := log1 @ [StoppedInMiddleOfTriangle (length (points (w_ret w)))]\<rparr>)
         else
           (case ismarked M edgep (t_marking s) of
              Inl f \<Rightarrow> Inl f
            | Inr wasmarked \<Rightarrow>
                (let thiscept = contourcept M tri (subdir M tri edgep) elev;
                     ret1 = (if \<not> wasmarked \<and> xy_ne thiscept (w_lastcept w)
                                \<and> xy_ne thiscept firstcept \<and> xy_isfinite thiscept
                             then pl_insert thiscept (w_ret w) else w_ret w);
                     lastcept1 = (if \<not> wasmarked then thiscept else w_lastcept w)
                 in case mark M edgep (t_marking s) of
                      Inl f \<Rightarrow> Inl f
                    | Inr K \<Rightarrow>
                        (case handle_edge M edgep of
                           Inl f \<Rightarrow> Inl f
                         | Inr e \<Rightarrow>
                             (let ntri = othertri M e tri
                              in Inr (s\<lparr>t_edgep := edgep,
                                        t_tri := (case ntri of None \<Rightarrow> tri | Some n \<Rightarrow> n),
                                        t_ntri := ntri, t_wasmarked := wasmarked,
                                        t_lastcept := lastcept1, t_ret := ret1,
                                        t_marking := K, t_log := log1,
                                        t_reached := t_reached s @ [edgep]\<rparr>))))))"

text \<open>
  The pairs (edge, side) that a handle of the mesh can name. A turn after which the loop
  goes on has marked one of them that was not marked before, which bounds the number
  of turns.
\<close>

definition valid_marks :: "mesh \<Rightarrow> (nat \<times> nat) set" where
  "valid_marks M = {0 ..< length (edges M)} \<times> {0 ..< 4}"

lemma finite_valid_marks: "finite (valid_marks M)"
  by (simp add: valid_marks_def)

lemma handle_edge_valid: "handle_edge M ep = Inr i \<Longrightarrow> (i, handle_side ep) \<in> valid_marks M"
  by (auto simp: handle_edge_def valid_marks_def handle_side_def Let_def split: if_splits)

lemma ismarked_Inr: "ismarked M ep K = Inr b \<Longrightarrow> \<exists>i. handle_edge M ep = Inr i \<and> b = ((i, handle_side ep) \<in> marks K)"
  by (auto simp: ismarked_def split: sum.splits)

lemma mark_Inr: "mark M ep K = Inr K' \<Longrightarrow> \<exists>i. handle_edge M ep = Inr i \<and> marks K' = insert (i, handle_side ep) (marks K) \<and> markcalls K' = markcalls K @ [ep]"
  by (auto simp: mark_def split: sum.splits)

lemma trace_body_cases:
  assumes "trace_body M elev firstcept s = Inr s'"
  shows "(t_ntri s' = None \<and> t_marking s' = t_marking s \<and> t_reached s' = t_reached s) \<or>
         (\<exists>ep b K. ismarked M ep (t_marking s) = Inr b \<and> mark M ep (t_marking s) = Inr K
            \<and> t_wasmarked s' = b \<and> t_marking s' = K \<and> t_edgep s' = ep
            \<and> t_reached s' = t_reached s @ [ep])"
  using assms unfolding trace_body_def Let_def
  by (auto split: if_splits sum.splits)


lemma trace_body_progress:
  assumes "trace_body M elev firstcept s = Inr s'" "t_ntri s' \<noteq> None" "\<not> t_wasmarked s'"
  shows "\<exists>p. p \<in> valid_marks M \<and> p \<notin> marks (t_marking s)
            \<and> marks (t_marking s') = insert p (marks (t_marking s))"
proof -
  from trace_body_cases [OF assms(1)] assms(2)
  obtain ep b K where e: "ismarked M ep (t_marking s) = Inr b"
      "mark M ep (t_marking s) = Inr K" "t_wasmarked s' = b" "t_marking s' = K"
    by blast
  obtain i where i: "handle_edge M ep = Inr i" "b = ((i, handle_side ep) \<in> marks (t_marking s))"
    using ismarked_Inr [OF e(1)] by blast
  have m: "marks K = insert (i, handle_side ep) (marks (t_marking s))"
    using mark_Inr [OF e(2)] i(1) by auto
  have "(i, handle_side ep) \<in> valid_marks M" using i(1) by (rule handle_edge_valid)
  moreover have "(i, handle_side ep) \<notin> marks (t_marking s)" using i(2) e(3) assms(3) by simp
  ultimately show ?thesis using m e(4) by blast
qed

lemma unmarked_decreases:
  assumes "p \<in> valid_marks M" "p \<notin> A"
  shows "card (valid_marks M - insert p A) < card (valid_marks M - A)"
proof -
  have "valid_marks M - insert p A \<subset> valid_marks M - A" using assms by blast
  then show ?thesis using finite_valid_marks [of M] by (simp add: psubset_card_mono)
qed

text \<open>\<open>do { ... } while (ntri && !wasmarked)\<close>.\<close>

function trace_loop :: "mesh \<Rightarrow> double \<Rightarrow> xy \<Rightarrow> tstate \<Rightarrow> fault + tstate" where
  "trace_loop M elev firstcept s =
     (case trace_body M elev firstcept s of
        Inl f \<Rightarrow> Inl f
      | Inr s' \<Rightarrow>
          if t_ntri s' \<noteq> None \<and> \<not> t_wasmarked s'
          then trace_loop M elev firstcept s' else Inr s')"
  by pat_completeness auto
termination
proof (relation "measure (\<lambda>(M, elev, firstcept, s). card (valid_marks M - marks (t_marking s)))")
  show "wf (measure (\<lambda>(M, elev, firstcept, s). card (valid_marks M - marks (t_marking s))))"
    by simp
next
  fix M elev firstcept s s'
  assume b: "trace_body M elev firstcept s = Inr s'"
    and c: "t_ntri s' \<noteq> None \<and> \<not> t_wasmarked s'"
  obtain p where p: "p \<in> valid_marks M" "p \<notin> marks (t_marking s)"
      "marks (t_marking s') = insert p (marks (t_marking s))"
    using trace_body_progress [OF b] c by blast
  show "((M, elev, firstcept, s'), (M, elev, firstcept, s))
        \<in> measure (\<lambda>(M, elev, firstcept, s). card (valid_marks M - marks (t_marking s)))"
    using unmarked_decreases [OF p(1,2)] p(3) by simp
qed

declare trace_loop.simps [simp del]

text \<open>
  What \<open>trace\<close> hands back: the polyline, the marks of the mesh, and its output;
  \<open>tr_reached\<close> lists the handles that the walk came to.
\<close>

record traced =
  tr_poly :: polyline
  tr_marking :: marking
  tr_log :: "msg list"
  tr_reached :: "nat list"

text \<open>
  The triangle to start in: \<open>tria\<close>, or \<open>trib\<close> when \<open>tria\<close> is null or the seed is not
  upleft in \<open>tria\<close>.
\<close>

definition start_triangle :: "mesh \<Rightarrow> nat \<Rightarrow> nat \<Rightarrow> nat option" where
  "start_triangle M e edgep =
     (case tria (edges M ! e) of
        None \<Rightarrow> trib (edges M ! e)
      | Some t \<Rightarrow> if \<not> upleft M t (subdir M t edgep) then trib (edges M ! e) else Some t)"

definition trace_start :: "double \<Rightarrow> nat \<Rightarrow> nat \<Rightarrow> nat option \<Rightarrow> xy \<Rightarrow> marking \<Rightarrow> tstate" where
  "trace_start elev edgep t ntri firstcept K =
     \<lparr>t_edgep = edgep, t_tri = t, t_ntri = ntri, t_wasmarked = False,
      t_lastcept = firstcept, t_ret = pl_insert firstcept (new_polyline elev),
      t_marking = K, t_log = [], t_reached = [edgep]\<rparr>"

definition trace_finish :: "tstate \<Rightarrow> traced" where
  "trace_finish s =
     \<lparr>tr_poly = (if t_ntri s = None then pl_open (t_ret s) else t_ret s),
      tr_marking = t_marking s, tr_log = t_log s, tr_reached = t_reached s\<rparr>"

text \<open>
  \<open>trace\<close> up to the end of its outer loop: either the early return on a seed whose
  crossing point is a NaN (left), or the state in which the loop ends (right).
\<close>

definition trace_walk :: "mesh \<Rightarrow> marking \<Rightarrow> nat \<Rightarrow> double \<Rightarrow> fault + (traced + tstate)" where
  "trace_walk M K edgep elev =
     (case handle_edge M edgep of
        Inl f \<Rightarrow> Inl f
      | Inr e \<Rightarrow>
          (case mark M edgep K of
             Inl f \<Rightarrow> Inl f
           | Inr K1 \<Rightarrow>
               (case start_triangle M e edgep of
                  None \<Rightarrow> Inl NullDereference
                | Some t \<Rightarrow>
                    (let firstcept = contourcept M t (subdir M t edgep) elev
                     in if xy_isnan firstcept then
                          Inr (Inl \<lparr>tr_poly = new_polyline elev, tr_marking = K1,
                                    tr_log = [TracingStartsOnNan],
                                    tr_reached = [edgep]\<rparr>)
                        else
                          (case trace_loop M elev firstcept
                                  (trace_start elev edgep t (trib (edges M ! e)) firstcept K1) of
                             Inl f \<Rightarrow> Inl f
                           | Inr s \<Rightarrow> Inr (Inr s))))))"

text \<open>\<open>trace\<close>: after the loop the polyline is opened when \<open>ntri\<close> is null.\<close>

definition trace :: "mesh \<Rightarrow> marking \<Rightarrow> nat \<Rightarrow> double \<Rightarrow> fault + traced" where
  "trace M K edgep elev =
     (case trace_walk M K edgep elev of
        Inl f \<Rightarrow> Inl f
      | Inr (Inl r) \<Rightarrow> Inr r
      | Inr (Inr s) \<Rightarrow> Inr (trace_finish s))"

section \<open>\<open>intrace\<close>: a contour wholly inside one triangle\<close>

text \<open>
  The inner \<open>for\<close> loop: from \<open>j = start\<close>, push \<open>j\<close> and proceed, as long as nothing is
  collected yet, or \<open>j & 65535\<close> lies above \<open>start & 65535\<close> and below the number of
  sub-segments and fewer than 256 entries are collected. It returns the last \<open>j\<close> and
  the collection.
\<close>

function collect :: "mesh \<Rightarrow> nat \<Rightarrow> double \<Rightarrow> int \<Rightarrow> int \<Rightarrow> int list \<Rightarrow> int \<times> int list" where
  "collect M tri elev start j sube =
     (if sube = [] \<or>
         (start mod 65536 < j mod 65536 \<and> j mod 65536 < int (subdiv_size M tri)
          \<and> length sube < 256)
      then collect M tri elev start (proceed M tri j elev) (sube @ [j])
      else (j, sube))"
  by pat_completeness auto
termination
proof (relation "measure (\<lambda>(M, tri, elev, start, j, sube). 256 - length sube)")
  show "wf (measure (\<lambda>(M, tri, elev, start, j, sube). 256 - length sube))" by simp
next
  fix M :: mesh and tri :: nat and elev :: double and start j :: int and sube :: "int list"
  assume "sube = [] \<or>
         (start mod 65536 < j mod 65536 \<and> j mod 65536 < int (subdiv_size M tri)
          \<and> length sube < 256)"
  then have "length sube < 256" by (elim disjE conjE) simp_all
  then show "((M, tri, elev, start, proceed M tri j elev, sube @ [j]), (M, tri, elev, start, j, sube))
        \<in> measure (\<lambda>(M, tri, elev, start, j, sube). 256 - length sube)"
    by simp
qed

declare collect.simps [simp del]

text \<open>
  The outer loop over the sub-segments \<open>i\<close>, with the variables \<open>start\<close>, \<open>j\<close> and \<open>sube\<close>;
  it breaks as soon as a walk comes back to its start.
\<close>

fun intrace_scan ::
  "mesh \<Rightarrow> nat \<Rightarrow> double \<Rightarrow> nat list \<Rightarrow> int \<times> int \<times> int list \<Rightarrow> int \<times> int \<times> int list" where
  "intrace_scan M tri elev [] st = st"
| "intrace_scan M tri elev (i # is) (start, j, sube) =
     (if crosses M tri (int i) elev then
        (let start1 = (if \<not> upleft M tri (int i) then int i + 65536 else int i);
             r = collect M tri elev start1 start1 []
         in if fst r = start1 then (start1, fst r, snd r)
            else intrace_scan M tri elev is (start1, fst r, snd r))
      else intrace_scan M tri elev is (start, j, sube))"

text \<open>The last loop: the finite crossing points of the collected sub-segments.\<close>

fun insert_cepts :: "mesh \<Rightarrow> nat \<Rightarrow> double \<Rightarrow> int list \<Rightarrow> polyline \<Rightarrow> polyline" where
  "insert_cepts M tri elev [] ret = ret"
| "insert_cepts M tri elev (s # ss) ret =
     (let cept = contourcept M tri s elev
      in insert_cepts M tri elev ss (if xy_isfinite cept then pl_insert cept ret else ret))"

definition intrace :: "mesh \<Rightarrow> nat \<Rightarrow> double \<Rightarrow> polyline" where
  "intrace M tri elev =
     (case intrace_scan M tri elev [0 ..< subdiv_size M tri] (- 987, - 610, []) of
        (start, j, sube) \<Rightarrow>
          if j = start then insert_cepts M tri elev sube (new_polyline elev)
          else new_polyline elev)"

section \<open>\<open>roughcontours\<close>: the boundary traces of one elevation\<close>

text \<open>
  The state of the sweep: the marks of the mesh, the contours pushed so far, and the
  output; \<open>sw_reached\<close> lists the handles that the traces of this elevation came to.
  \<open>dedup\<close>, a method of the absent class \<open>polyline\<close>, is a parameter.
\<close>

record sweep =
  sw_marking :: marking
  sw_contours :: "polyline list"
  sw_log :: "msg list"
  sw_reached :: "nat list"

text \<open>The loop over \<open>cstarts\<close>: a seed that is not marked is traced.\<close>

fun boundary_traces ::
  "mesh \<Rightarrow> (polyline \<Rightarrow> polyline) \<Rightarrow> double \<Rightarrow> nat list \<Rightarrow> sweep \<Rightarrow> fault + sweep" where
  "boundary_traces M dedup elev [] sw = Inr sw"
| "boundary_traces M dedup elev (ep # eps) sw =
     (case ismarked M ep (sw_marking sw) of
        Inl f \<Rightarrow> Inl f
      | Inr True \<Rightarrow> boundary_traces M dedup elev eps sw
      | Inr False \<Rightarrow>
          (case trace M (sw_marking sw) ep elev of
             Inl f \<Rightarrow> Inl f
           | Inr r \<Rightarrow>
               boundary_traces M dedup elev eps
                 \<lparr>sw_marking = tr_marking r,
                  sw_contours = sw_contours sw @ [dedup (tr_poly r)],
                  sw_log = sw_log sw @ tr_log r,
                  sw_reached = sw_reached sw @ tr_reached r\<rparr>))"

text \<open>
  One elevation of \<open>roughcontours\<close>, up to the end of the loop over the seeds: find the
  seeds, clear the marks, trace.
\<close>

definition roughcontours_level ::
  "mesh \<Rightarrow> (polyline \<Rightarrow> polyline) \<Rightarrow> double \<Rightarrow> sweep \<Rightarrow> fault + sweep" where
  "roughcontours_level M dedup elev sw =
     (case contstarts M elev of
        Inl f \<Rightarrow> Inl f
      | Inr cstarts \<Rightarrow>
          boundary_traces M dedup elev cstarts
            (sw\<lparr>sw_marking := clearmarks (sw_marking sw), sw_reached := []\<rparr>))"

section \<open>Example meshes for the tracing functions\<close>

text \<open>
  \<open>M_loop\<close>: three triangles 0, 1, 2 around a summit. The spokes are the interior edges
  0, 1, 2 (edge 0 between triangles 0 and 2, edge 1 between 1 and 0, edge 2 between 2
  and 1); the exterior edges 3, 4, 5 close the triangles. The contour crosses side 0 of
  each spoke (handles 4, 8, 12) and runs round the summit: in triangle 0 from handle 4
  to handle 8, in triangle 1 from 8 to 12, in triangle 2 from 12 back to 4. A
  sub-segment on an edge has the number of its handle.
\<close>

definition M_loop :: mesh where
  "M_loop =
     \<lparr>edges = [\<lparr>tria = Some 0, trib = Some 2, isinterior = True\<rparr>,
               \<lparr>tria = Some 1, trib = Some 0, isinterior = True\<rparr>,
               \<lparr>tria = Some 2, trib = Some 1, isinterior = True\<rparr>,
               \<lparr>tria = Some 0, trib = None, isinterior = False\<rparr>,
               \<lparr>tria = Some 1, trib = None, isinterior = False\<rparr>,
               \<lparr>tria = Some 2, trib = None, isinterior = False\<rparr>],
      subdir = (\<lambda>t ep. int ep),
      crosses = (\<lambda>t sd elev. sd = 4 \<or> sd = 8 \<or> sd = 12),
      upleft = (\<lambda>t sd. (sd = 4 \<and> t = 0) \<or> (sd = 8 \<and> t = 1) \<or> (sd = 12 \<and> t = 2)),
      proceed = (\<lambda>t sd elev.
         if t = 0 \<and> sd = 4 then 8 else if t = 1 \<and> sd = 8 then 12
         else if t = 2 \<and> sd = 12 then 4 else - 1),
      contourcept = (\<lambda>t sd elev. XY (Fin (of_int sd)) (Fin 0)),
      edgepart = (\<lambda>t sd. nat sd),
      othertri = (\<lambda>e t.
         if e = 0 then (if t = 0 then Some 2 else if t = 2 then Some 0 else None)
         else if e = 1 then (if t = 1 then Some 0 else if t = 0 then Some 1 else None)
         else if e = 2 then (if t = 2 then Some 1 else if t = 1 then Some 2 else None)
         else None),
      subdiv_size = (\<lambda>t. 0)\<rparr>"

text \<open>
  \<open>M_cap\<close>: one triangle with two exterior edges. From the seed (handle 4) \<open>proceed\<close>
  never leaves the triangle: it goes from each sub-segment to the next number, and none
  of these sub-segments has a crossing point (NaN). Sub-segment 260, where the 256
  steps of the inner walk end, lies on handle 8.
\<close>

definition M_cap :: mesh where
  "M_cap =
     \<lparr>edges = [\<lparr>tria = Some 0, trib = None, isinterior = False\<rparr>,
               \<lparr>tria = Some 0, trib = None, isinterior = False\<rparr>],
      subdir = (\<lambda>t ep. int ep),
      crosses = (\<lambda>t sd elev. sd = 4),
      upleft = (\<lambda>t sd. True),
      proceed = (\<lambda>t sd elev. sd + 1),
      contourcept = (\<lambda>t sd elev. if sd = 4 then XY (Fin 0) (Fin 0) else XY NaN NaN),
      edgepart = (\<lambda>t sd. if sd = 260 then 8 else 0),
      othertri = (\<lambda>e t. None),
      subdiv_size = (\<lambda>t. 65536)\<rparr>"


definition no_marks :: marking where
  "no_marks = \<lparr>marks = {}, markcalls = []\<rparr>"

definition empty_sweep :: sweep where
  "empty_sweep = \<lparr>sw_marking = no_marks, sw_contours = [], sw_log = [], sw_reached = []\<rparr>"

text \<open>The parts of a result that the statements below look at; a fault gives \<open>None\<close>.\<close>

definition traced_points :: "fault + traced \<Rightarrow> xy list option" where
  "traced_points x = (case x of Inl f \<Rightarrow> None | Inr r \<Rightarrow> Some (points (tr_poly r)))"

definition traced_open :: "fault + traced \<Rightarrow> bool option" where
  "traced_open x = (case x of Inl f \<Rightarrow> None | Inr r \<Rightarrow> Some (isopen (tr_poly r)))"

definition traced_log :: "fault + traced \<Rightarrow> msg list option" where
  "traced_log x = (case x of Inl f \<Rightarrow> None | Inr r \<Rightarrow> Some (tr_log r))"

definition traced_markcalls :: "fault + traced \<Rightarrow> nat list option" where
  "traced_markcalls x = (case x of Inl f \<Rightarrow> None | Inr r \<Rightarrow> Some (markcalls (tr_marking r)))"

definition sweep_markcalls :: "fault + sweep \<Rightarrow> nat list option" where
  "sweep_markcalls x = (case x of Inl f \<Rightarrow> None | Inr sw \<Rightarrow> Some (markcalls (sw_marking sw)))"

text \<open>
  The inner walk as \<open>trace\<close> starts it on \<open>M_cap\<close> from the seed 4 at elevation 5, and the
  messages that a turn of the inner walk can write.
\<close>

definition cap_walk :: walk where
  "cap_walk = \<lparr>w_subedge = 4, w_subnext = 0, w_i = 0, w_lastcept = XY (Fin 0) (Fin 0),
     w_ret = pl_insert (XY (Fin 0) (Fin 0)) (new_polyline (Fin 5)), w_log = [], w_steps = 0\<rparr>"

definition walk_msg :: "msg \<Rightarrow> bool" where
  "walk_msg m = (case m of ProceedFailedAt n \<Rightarrow> True | RepeatedContourcept e n \<Rightarrow> True | _ \<Rightarrow> False)"

text \<open>
  \<open>M_int\<close>: a triangle of three sub-segments with a contour wholly inside. Sub-segment 1
  crosses the elevation; \<open>proceed\<close> goes from 1 to 2 and from 2 back to 1. Sub-segment 1
  has a finite crossing point and sub-segment 2 has none.
\<close>

definition M_int :: mesh where
  "M_int =
     \<lparr>edges = [],
      subdir = (\<lambda>t ep. int ep),
      crosses = (\<lambda>t sd elev. sd = 1),
      upleft = (\<lambda>t sd. True),
      proceed = (\<lambda>t sd elev. if sd = 1 then 2 else 1),
      contourcept = (\<lambda>t sd elev. if sd = 1 then XY (Fin 1) (Fin 0) else XY NaN NaN),
      edgepart = (\<lambda>t sd. 0),
      othertri = (\<lambda>e t. None),
      subdiv_size = (\<lambda>t. 3)\<rparr>"

text \<open>
  \<open>extends p q\<close>: the polyline \<open>q\<close> is \<open>p\<close> with finite points appended, the elevation
  and the open flag unchanged. \<open>all_marked M K eps\<close>: every handle of \<open>eps\<close> is marked
  in \<open>K\<close>.
\<close>

definition extends :: "polyline \<Rightarrow> polyline \<Rightarrow> bool" where
  "extends p q =
     (\<exists>qs. points q = points p @ qs \<and> list_all xy_isfinite qs
           \<and> isopen q = isopen p \<and> elevation q = elevation p)"

definition all_marked :: "mesh \<Rightarrow> marking \<Rightarrow> nat list \<Rightarrow> bool" where
  "all_marked M K eps = list_all (\<lambda>ep. ismarked M ep K = Inr True) eps"

text \<open>
  Modelled from the spec: the contract of \<open>contourcept\<close>, a method of the absent class
  \<open>triangle\<close>. It returns a point or NaN: a result that is not a NaN is a finite point.
\<close>

definition point_or_nan :: "mesh \<Rightarrow> bool" where
  "point_or_nan M =
     (\<forall>t sd elev. xy_isnan (contourcept M t sd elev) \<or> xy_isfinite (contourcept M t sd elev))"

section \<open>Properties of rounding\<close>

lemma rint_of_int: "rint (of_int k) = k"
  by (simp add: rint_def)

lemma rint_floor: "\<lfloor>x\<rfloor> \<le> rint x" and rint_floor1: "rint x \<le> \<lfloor>x\<rfloor> + 1"
  by (simp_all add: rint_def Let_def)

lemma rint_mono: "x \<le> y \<Longrightarrow> rint x \<le> rint y"
proof -
  assume xy: "x \<le> y"
  have fl: "\<lfloor>x\<rfloor> \<le> \<lfloor>y\<rfloor>" using xy by (rule floor_mono)
  show ?thesis
  proof (cases "\<lfloor>x\<rfloor> = \<lfloor>y\<rfloor>")
    case True
    then have "x - of_int \<lfloor>x\<rfloor> \<le> y - of_int \<lfloor>y\<rfloor>" using xy by simp
    then show ?thesis using True unfolding rint_def Let_def by auto
  next
    case False
    then have "\<lfloor>x\<rfloor> + 1 \<le> \<lfloor>y\<rfloor>" using fl by linarith
    then show ?thesis using rint_floor1 [of x] rint_floor [of y] by linarith
  qed
qed

lemma rint_le: "x \<le> of_int n \<Longrightarrow> rint x \<le> n"
  using rint_mono [of x "of_int n"] by (simp add: rint_of_int)

lemma rint_ge: "of_int n \<le> x \<Longrightarrow> n \<le> rint x"
  using rint_mono [of "of_int n" x] by (simp add: rint_of_int)

lemma powr_powi: "2 powr (real_of_int k) = (2::real) powi k"
  by (simp add: powr_real_of_int')

lemma powr_powi1: "2 powr (real_of_int k + 1) = (2::real) powi (k + 1)"
  using powr_powi [of "k + 1"] by simp

lemma pow2_bounds:
  assumes "0 < a"
  shows "2 powi \<lfloor>log 2 a\<rfloor> \<le> a" "a < 2 powi (\<lfloor>log 2 a\<rfloor> + 1)"
proof -
  have "2 powr (of_int \<lfloor>log 2 a\<rfloor>) \<le> a \<and> a < 2 powr (of_int \<lfloor>log 2 a\<rfloor> + 1)"
    using floor_log_eq_powr_iff [of a 2 "\<lfloor>log 2 a\<rfloor>"] assms by simp
  then show "2 powi \<lfloor>log 2 a\<rfloor> \<le> a" "a < 2 powi (\<lfloor>log 2 a\<rfloor> + 1)"
    unfolding powr_powi powr_powi1 by simp_all
qed

lemma floor_log_eqI:
  assumes "2 powi k \<le> a" "a < 2 powi (k + 1)"
  shows "\<lfloor>log 2 a\<rfloor> = k"
proof -
  have "(0::real) < 2 powi k" by simp
  then have "0 < a" using assms(1) by linarith
  moreover have "2 powr (of_int k) \<le> a \<and> a < 2 powr (of_int k + 1)"
    unfolding powr_powi powr_powi1 using assms by simp
  ultimately show ?thesis using floor_log_eq_powr_iff [of a 2 k] by simp
qed

lemma quantum_bexp: "quantum_exp a = bexp a - 52"
  by (simp add: quantum_exp_def bexp_def)

lemma bexp_mono: "0 < a \<Longrightarrow> a \<le> b \<Longrightarrow> bexp a \<le> bexp b"
  unfolding bexp_def using floor_mono [of "log 2 a" "log 2 b"] by (simp add: max.coboundedI1)

lemma below_next_binade: "0 < a \<Longrightarrow> a < 2 powi (bexp a + 1)"
proof -
  assume a: "0 < a"
  have "(2::real) powi (\<lfloor>log 2 a\<rfloor> + 1) \<le> 2 powi (bexp a + 1)"
    by (rule power_int_increasing) (simp_all add: bexp_def)
  then show ?thesis using pow2_bounds(2) [OF a] by linarith
qed

lemma pow53: "(2 ^ 53 :: real) * 2 powi (e - 52) = 2 powi (e + 1)"
  using power_int_add [of "2::real" 53 "e - 52"] by (simp add: add.commute)

lemma pow52: "(2 ^ 52 :: real) * 2 powi (e - 52) = 2 powi e"
  using power_int_add [of "2::real" 52 "e - 52"] by simp

lemma round_mag_pos: "0 < a \<Longrightarrow> round_mag a = of_int (rint (a / 2 powi quantum_exp a)) * 2 powi quantum_exp a"
  by (simp add: round_mag_def)

lemma round_mag_upper:
  assumes "0 < a"
  shows "round_mag a \<le> 2 powi (bexp a + 1)"
proof -
  let ?q = "quantum_exp a"
  have "a / 2 powi ?q < 2 powi (bexp a + 1) / 2 powi ?q"
    using below_next_binade [OF assms] by (simp add: divide_strict_right_mono)
  also have "2 powi (bexp a + 1) / 2 powi ?q = (2::real) powi 53"
    by (simp add: quantum_bexp power_int_diff [symmetric])
  finally have "a / 2 powi ?q \<le> of_int (2 ^ 53)" by simp
  then have "rint (a / 2 powi ?q) \<le> 2 ^ 53" by (rule rint_le)
  then have "real_of_int (rint (a / 2 powi ?q)) \<le> 2 ^ 53"
    by (metis of_int_le_iff of_int_numeral of_int_power)
  then have "of_int (rint (a / 2 powi ?q)) * 2 powi ?q \<le> (2 ^ 53 :: real) * 2 powi ?q"
    by (rule mult_right_mono) simp
  also have "(2 ^ 53 :: real) * 2 powi ?q = 2 powi (bexp a + 1)"
    unfolding quantum_bexp by (rule pow53)
  finally show ?thesis unfolding round_mag_pos [OF assms] .
qed

lemma round_mag_lower:
  assumes "0 < a" "- 1022 \<le> \<lfloor>log 2 a\<rfloor>"
  shows "2 powi (bexp a) \<le> round_mag a"
proof -
  let ?q = "quantum_exp a"
  have b: "bexp a = \<lfloor>log 2 a\<rfloor>" using assms(2) by (simp add: bexp_def)
  have "2 powi (bexp a) / 2 powi ?q \<le> a / 2 powi ?q"
    using pow2_bounds(1) [OF assms(1)] b by (simp add: divide_right_mono)
  moreover have "2 powi (bexp a) / 2 powi ?q = (2::real) powi 52"
    by (simp add: quantum_bexp power_int_diff [symmetric])
  ultimately have "of_int (2 ^ 52) \<le> a / 2 powi ?q" by simp
  then have "2 ^ 52 \<le> rint (a / 2 powi ?q)" by (rule rint_ge)
  then have "2 ^ 52 \<le> real_of_int (rint (a / 2 powi ?q))"
    by (metis of_int_le_iff of_int_numeral of_int_power)
  then have "(2 ^ 52 :: real) * 2 powi ?q \<le> of_int (rint (a / 2 powi ?q)) * 2 powi ?q"
    by (rule mult_right_mono) simp
  moreover have "(2 ^ 52 :: real) * 2 powi ?q = 2 powi (bexp a)"
    unfolding quantum_bexp by (rule pow52)
  ultimately have "(2::real) powi (bexp a) \<le> of_int (rint (a / 2 powi ?q)) * 2 powi ?q"
    by linarith
  then show ?thesis unfolding round_mag_pos [OF assms(1)] .
qed

lemma round_mag_nonneg: "0 \<le> a \<Longrightarrow> 0 \<le> round_mag a"
proof -
  assume "0 \<le> a"
  then have "of_int 0 \<le> a / 2 powi quantum_exp a" by simp
  then have "0 \<le> rint (a / 2 powi quantum_exp a)" by (rule rint_ge)
  then show ?thesis by (simp add: round_mag_def)
qed

lemma round_mag_mono:
  assumes "0 \<le> a" "a \<le> b"
  shows "round_mag a \<le> round_mag b"
proof (cases "a = 0")
  case True
  then show ?thesis using round_mag_nonneg [of b] assms by (simp add: round_mag_def)
next
  case False
  then have a: "0 < a" and b: "0 < b" using assms by simp_all
  have e: "bexp a \<le> bexp b" using a assms(2) by (rule bexp_mono)
  show ?thesis
  proof (cases "bexp a = bexp b")
    case True
    then have q: "quantum_exp a = quantum_exp b" by (simp add: quantum_bexp)
    have "a / 2 powi quantum_exp b \<le> b / 2 powi quantum_exp b"
      using assms(2) by (simp add: divide_right_mono)
    then have "rint (a / 2 powi quantum_exp b) \<le> rint (b / 2 powi quantum_exp b)"
      by (rule rint_mono)
    then show ?thesis using a b q by (simp add: round_mag_def mult_right_mono)
  next
    case F: False
    then have lt: "bexp a + 1 \<le> bexp b" using e by simp
    then have "- 1022 < bexp b" unfolding bexp_def by linarith
    then have "- 1022 \<le> \<lfloor>log 2 b\<rfloor>" unfolding bexp_def by linarith
    then have "2 powi (bexp b) \<le> round_mag b" using round_mag_lower [OF b] by simp
    moreover have "(2::real) powi (bexp a + 1) \<le> 2 powi (bexp b)"
      using lt by (intro power_int_increasing) simp_all
    ultimately show ?thesis using round_mag_upper [OF a] by linarith
  qed
qed


lemma round_mag_0: "round_mag 0 = 0"
  by (simp add: round_mag_def)

lemma huge_pos: "0 < huge"
  by (simp add: huge_def)

lemma rnd_0: "rnd 0 = Fin 0"
  using huge_pos by (simp add: rnd_def round_mag_0)

lemma rnd_not_nan: "rnd x \<noteq> NaN"
  by (simp add: rnd_def Let_def)

lemma rnd_mono:
  assumes "x \<le> y"
  shows "dle (rnd x) (rnd y)"
proof -
  have nn: "0 \<le> round_mag \<bar>x\<bar>" "0 \<le> round_mag \<bar>y\<bar>" by (simp_all add: round_mag_nonneg)
  consider "0 \<le> x" | "x < 0" "y < 0" | "x < 0" "0 \<le> y" by linarith
  then show ?thesis
  proof cases
    case 1
    then have m: "round_mag \<bar>x\<bar> \<le> round_mag \<bar>y\<bar>" using assms by (intro round_mag_mono) simp_all
    show ?thesis
    proof (cases "huge \<le> round_mag \<bar>x\<bar>")
      case True
      then have "huge \<le> round_mag \<bar>y\<bar>" using m by simp
      moreover have "x \<noteq> 0" "y \<noteq> 0" using True m huge_pos by (auto simp: round_mag_0)
      ultimately show ?thesis using True 1 assms by (simp add: rnd_def)
    next
      case False
      have "\<not> huge \<le> round_mag \<bar>y\<bar>" if "\<not> 0 < y"
      proof -
        have "y = 0" using that 1 assms by linarith
        then show ?thesis using huge_pos by (simp add: round_mag_0)
      qed
      then show ?thesis using False 1 assms m by (auto simp: rnd_def Let_def)
    qed
  next
    case 2
    then have m: "round_mag \<bar>y\<bar> \<le> round_mag \<bar>x\<bar>" using assms by (intro round_mag_mono) simp_all
    show ?thesis
    proof (cases "huge \<le> round_mag \<bar>x\<bar>")
      case True
      then show ?thesis using 2 by (simp add: rnd_def Let_def)
    next
      case False
      then have "\<not> huge \<le> round_mag \<bar>y\<bar>" using m by simp
      then show ?thesis using False 2 m by (simp add: rnd_def Let_def)
    qed
  next
    case 3
    then show ?thesis using nn huge_pos by (auto simp: rnd_def Let_def round_mag_0)
  qed
qed

lemma rnd_between:
  assumes "rnd lo = Fin lo" "rnd hi = Fin hi" "lo \<le> x" "x \<le> hi"
  shows "\<exists>q. rnd x = Fin q \<and> lo \<le> q \<and> q \<le> hi"
proof -
  have "dle (Fin lo) (rnd x)" "dle (rnd x) (Fin hi)"
    using rnd_mono [OF assms(3)] rnd_mono [OF assms(4)] assms(1,2) by simp_all
  then show ?thesis by (cases "rnd x") simp_all
qed

lemma pow2_less_D: "(2::real) powi e < 2 powi f \<Longrightarrow> e < f"
  using power_int_increasing [of f e "2::real"] by (cases "e < f") auto

lemma rnd_overflow:
  assumes "huge \<le> x"
  shows "rnd x = PInf"
proof -
  have x: "0 < x" using assms huge_pos by linarith
  have h: "huge = 2 powi 1024" by (simp add: huge_def)
  have "\<lfloor>log 2 huge\<rfloor> = 1024" unfolding h by (rule floor_log_eqI) simp_all
  moreover have "\<lfloor>log 2 huge\<rfloor> \<le> \<lfloor>log 2 x\<rfloor>"
    using assms huge_pos by (intro floor_mono) simp
  ultimately have e: "1024 \<le> \<lfloor>log 2 x\<rfloor>" by simp
  then have b: "bexp x = \<lfloor>log 2 x\<rfloor>" "- 1022 \<le> \<lfloor>log 2 x\<rfloor>" by (simp_all add: bexp_def)
  have "(2::real) powi 1024 \<le> 2 powi (bexp x)"
    using e b(1) by (intro power_int_increasing) simp_all
  then have "huge \<le> round_mag x" using round_mag_lower [OF x b(2)] unfolding h by linarith
  then show ?thesis using x by (simp add: rnd_def)
qed

lemma rnd_dyadic:
  assumes "\<bar>k\<bar> < 2 ^ 53" "n \<le> 1074"
  shows "rnd (of_int k / 2 ^ n) = Fin (of_int k / 2 ^ n)"
proof (cases "k = 0")
  case True
  then show ?thesis by (simp add: rnd_0)
next
  case False
  define a :: real where "a = of_int \<bar>k\<bar> / 2 ^ n"
  have a: "0 < a" using False by (simp add: a_def)
  have ak: "a = of_int \<bar>k\<bar> * 2 powi (- int n)" by (simp add: a_def power_int_minus field_simps)
  have k53: "of_int \<bar>k\<bar> < (2 ^ 53 :: real)"
    using assms(1) by (metis of_int_less_iff of_int_numeral of_int_power)
  then have "a < 2 ^ 53 * 2 powi (- int n)" unfolding ak by (simp add: mult_strict_right_mono)
  also have "\<dots> = 2 powi (53 - int n)"
    using power_int_add [of "2::real" 53 "- int n"] by simp
  finally have up: "a < 2 powi (53 - int n)" .
  have "(2::real) powi \<lfloor>log 2 a\<rfloor> < 2 powi (53 - int n)"
    using pow2_bounds(1) [OF a] up by linarith
  then have "\<lfloor>log 2 a\<rfloor> < 53 - int n" by (rule pow2_less_D)
  then have q: "quantum_exp a \<le> - int n"
    using assms(2) unfolding quantum_exp_def by simp
  define m where "m = nat (- int n - quantum_exp a)"
  have m: "int m = - int n - quantum_exp a" using q by (simp add: m_def)
  have "a / 2 powi quantum_exp a = of_int \<bar>k\<bar> * 2 powi (- int n - quantum_exp a)"
    unfolding ak by (simp add: power_int_diff)
  also have "\<dots> = of_int (\<bar>k\<bar> * 2 ^ m)" unfolding m [symmetric] by simp
  finally have r: "rint (a / 2 powi quantum_exp a) = \<bar>k\<bar> * 2 ^ m" by (simp only: rint_of_int)
  have "round_mag a = of_int (\<bar>k\<bar> * 2 ^ m) * 2 powi quantum_exp a"
    using a by (simp add: round_mag_pos r)
  also have "\<dots> = of_int \<bar>k\<bar> * (2 powi (int m) * 2 powi quantum_exp a)" by simp
  also have "2 powi (int m) * (2::real) powi quantum_exp a = 2 powi (- int n)"
    unfolding m using power_int_add [of "2::real" "- int n - quantum_exp a" "quantum_exp a"] by simp
  finally have rm: "round_mag a = a" by (simp add: ak)
  have "a \<le> of_int \<bar>k\<bar>"
    unfolding a_def using one_le_power [of "2::real" n] by (simp add: pos_divide_le_eq mult_le_cancel_left1)
  then have "a < 2 ^ 53" using k53 by linarith
  moreover have "(2 ^ 53 :: real) \<le> huge" unfolding huge_def by (rule power_increasing) simp_all
  ultimately have lt: "\<not> huge \<le> a" by linarith
  have ax: "\<bar>of_int k / 2 ^ n :: real\<bar> = a" by (simp add: a_def)
  have p: "(0::real) < 2 ^ n" by simp
  have sg: "(if 0 \<le> (of_int k / 2 ^ n :: real) then a else - a) = of_int k / 2 ^ n"
    using p by (auto simp: a_def zero_le_divide_iff abs_if not_le)
  show ?thesis unfolding rnd_def Let_def ax rm using lt sg by simp
qed


lemma rnd_eval:
  fixes a :: real
  assumes "2 ^ 52 \<le> a * 2 ^ j" "a * 2 ^ j < 2 ^ 53" "j \<le> 1074"
  shows "rnd a = Fin (of_int (rint (a * 2 ^ j)) / 2 ^ j)"
proof -
  have pj: "(0::real) < 2 ^ j" by simp
  have a: "0 < a" using assms(1) pj by (smt (verit) mult_nonpos_nonneg zero_less_power)
  have inv: "(2::real) powi (- int j) = 1 / 2 ^ j" by (simp add: power_int_minus field_simps)
  have l: "(2::real) powi (52 - int j) \<le> a"
  proof -
    have "(2::real) powi (52 - int j) = 2 ^ 52 / 2 ^ j"
      using power_int_add [of "2::real" 52 "- int j"] inv by simp
    then show ?thesis using assms(1) pj by (simp add: pos_divide_le_eq)
  qed
  have u: "a < (2::real) powi (52 - int j + 1)"
  proof -
    have "(2::real) powi (52 - int j + 1) = 2 ^ 53 / 2 ^ j"
      using power_int_add [of "2::real" 53 "- int j"] inv by (simp add: add.commute)
    then show ?thesis using assms(2) pj by (simp add: pos_less_divide_eq)
  qed
  have e: "\<lfloor>log 2 a\<rfloor> = 52 - int j" using l u by (rule floor_log_eqI)
  then have q: "quantum_exp a = - int j" using assms(3) by (simp add: quantum_exp_def)
  have rm: "round_mag a = of_int (rint (a * 2 ^ j)) / 2 ^ j"
    using a by (simp add: round_mag_pos q inv power_int_minus field_simps)
  have "rint (a * 2 ^ j) \<le> 2 ^ 53" using assms(2) by (intro rint_le) simp
  then have "real_of_int (rint (a * 2 ^ j)) \<le> 2 ^ 53"
    by (metis of_int_le_iff of_int_numeral of_int_power)
  then have "round_mag a \<le> 2 ^ 53 / 2 ^ j" unfolding rm using pj by (simp add: divide_right_mono)
  also have "\<dots> \<le> 2 ^ 53" using one_le_power [of "2::real" j] by (simp add: pos_divide_le_eq mult_le_cancel_left1)
  also have "\<dots> < huge" unfolding huge_def by (rule power_strict_increasing) simp_all
  finally have lt: "\<not> huge \<le> round_mag a" by simp
  show ?thesis using a lt by (simp add: rnd_def Let_def rm)
qed

lemma rint_ratio_up:
  assumes "0 < d" "0 \<le> r" "r < d" "d < 2 * r"
  shows "rint (of_int (q * d + r) / of_int d) = q + 1"
proof -
  have x: "(of_int (q * d + r) / of_int d :: real) = of_int q + of_int r / of_int d"
    using assms(1) by (simp add: field_simps)
  have f: "\<lfloor>of_int q + of_int r / of_int d :: real\<rfloor> = q"
    using assms by (intro floor_unique) (simp_all add: field_simps)
  have "(1::real) / 2 < of_int r / of_int d"
    using assms by (simp add: field_simps)
  then show ?thesis unfolding x rint_def Let_def f by simp
qed


lemma rnd_int: "\<bar>k\<bar> < 2 ^ 53 \<Longrightarrow> rnd (of_int k) = Fin (of_int k)"
  using rnd_dyadic [of k 0] by simp

lemma rnd_numeral [simp]:
  "(numeral n :: int) < 2 ^ 53 \<Longrightarrow> rnd (numeral n) = Fin (numeral n)"
  using rnd_int [of "numeral n"] by simp

lemma rnd_neg_numeral [simp]:
  "(numeral n :: int) < 2 ^ 53 \<Longrightarrow> rnd (- numeral n) = Fin (- numeral n)"
  using rnd_int [of "- numeral n"] by simp

lemma rnd_1 [simp]: "rnd 1 = Fin 1"
  using rnd_int [of 1] by simp

lemma rnd_m1 [simp]: "rnd (- 1) = Fin (- 1)"
  using rnd_int [of "- 1"] by simp

lemma rnd_half [simp]: "rnd (1 / 2) = Fin (1 / 2)"
  using rnd_dyadic [of 1 1] by simp

lemma rnd_numeral_half [simp]:
  "(numeral n :: int) < 2 ^ 53 \<Longrightarrow> rnd (numeral n / 2) = Fin (numeral n / 2)"
  using rnd_dyadic [of "numeral n" 1] by simp

declare rnd_0 [simp]

lemma dle_not_dgt: "dle a b \<Longrightarrow> \<not> dgt a b"
  by (cases a; cases b) simp_all

lemma dle_rnd_iff: "dle (rnd x) (rnd y) \<longleftrightarrow> \<not> dgt (rnd x) (rnd y)"
  using rnd_not_nan [of x] rnd_not_nan [of y] by (cases "rnd x"; cases "rnd y") auto

lemma rnd_quarter [simp]: "rnd (1 / 4) = Fin (1 / 4)"
  using rnd_dyadic [of 1 2] by simp

lemma not_dgt_rnd: "x \<le> y \<Longrightarrow> \<not> dgt (rnd x) (rnd y)"
  using rnd_mono dle_not_dgt by blast

lemma dgt_rnd:
  assumes "y \<le> m" "m' \<le> x" "rnd m = Fin m" "rnd m' = Fin m'" "m < m'"
  shows "dgt (rnd x) (rnd y)"
proof -
  have "dle (rnd y) (Fin m)" "dle (Fin m') (rnd x)"
    using rnd_mono [OF assms(1)] rnd_mono [OF assms(2)] assms(3,4) by simp_all
  then show ?thesis using assms(5) by (cases "rnd x"; cases "rnd y") auto
qed

section \<open>Properties of \<open>splitpoint\<close>\<close>

lemma rint_bounds: "0 \<le> x \<Longrightarrow> x \<le> 64 \<Longrightarrow> 0 \<le> rint x \<and> rint x \<le> 64"
  using rint_ge [of 0 x] rint_le [of x 64] by simp

lemma trunc_of_int: "trunc (of_int k) = k"
  by (simp add: trunc_def)

lemma splittab_length: "length splittab = 65"
  by (simp add: splittab_def)

lemma splittab_range: "\<forall>x\<in>set splittab. 0.2113 \<le> x \<and> x \<le> 0.5"
  by (simp add: splittab_def)

lemma splittab_nth_range: "k < 65 \<Longrightarrow> 0.2113 \<le> splittab ! k \<and> splittab ! k \<le> 0.5"
  using splittab_range splittab_length nth_mem by metis

lemma out_of_tolerance_Fin:
  "out_of_tolerance (Fin l) (Fin r) (Fin t) \<longleftrightarrow>
     dgt (rnd (\<bar>l\<bar> * 27)) (rnd (t * 23)) \<or> dgt (rnd (\<bar>r\<bar> * 27)) (rnd (t * 23))"
  by (simp add: out_of_tolerance_def)

text \<open>Two clamp values that are both zero are never out of a positive tolerance.\<close>

lemma out_of_tolerance_nonzero:
  assumes "0 < t" "out_of_tolerance (Fin l) (Fin r) (Fin t)"
  shows "l \<noteq> 0 \<or> r \<noteq> 0"
proof (rule ccontr)
  assume "\<not> (l \<noteq> 0 \<or> r \<noteq> 0)"
  then have z: "l = 0" "r = 0" by simp_all
  have "\<not> dgt (rnd (0 * 27)) (rnd (t * 23))" using assms(1) by (intro not_dgt_rnd) simp
  then show False using assms(2) z by (simp add: out_of_tolerance_Fin)
qed

text \<open>
  Within the exact tolerance the rounded comparison finds nothing out of tolerance:
  rounding is monotone.
\<close>

lemma within_not_out_of_tolerance:
  assumes "\<bar>l\<bar> * 27 \<le> t * 23" "\<bar>r\<bar> * 27 \<le> t * 23"
  shows "\<not> out_of_tolerance (Fin l) (Fin r) (Fin t)"
  using not_dgt_rnd [OF assms(1)] not_dgt_rnd [OF assms(2)] by (simp add: out_of_tolerance_Fin)

text \<open>The divisor is the clamp value of the bigger magnitude, so the ratio is in [-1, 1].\<close>

lemma ratio_cases:
  assumes "0 < t" "out_of_tolerance (Fin l) (Fin r) (Fin t)"
  shows "\<exists>d q. split_divisor (Fin l) (Fin r) = Fin d \<and> d \<noteq> 0
             \<and> split_ratio (Fin l) (Fin r) = Fin q \<and> - 1 \<le> q \<and> q \<le> 1"
proof (cases "\<bar>l\<bar> < \<bar>r\<bar>")
  case True
  then have r: "r \<noteq> 0" by auto
  have "\<bar>l / r\<bar> \<le> 1" using True by (simp add: field_simps)
  then have "l / r \<le> 1" "- (l / r) \<le> 1" unfolding abs_le_iff by blast+
  then have "- 1 \<le> l / r" "l / r \<le> 1" by linarith+
  then obtain q where "rnd (l / r) = Fin q" "- 1 \<le> q" "q \<le> 1"
    using rnd_between [of "- 1" 1 "l / r"] by auto
  then show ?thesis using True r by (simp add: split_divisor_def split_ratio_def whichbig_def)
next
  case False
  then have l: "l \<noteq> 0" using out_of_tolerance_nonzero [OF assms] by auto
  have "\<bar>r / l\<bar> \<le> 1" using False l by (simp add: field_simps)
  then have "r / l \<le> 1" "- (r / l) \<le> 1" unfolding abs_le_iff by blast+
  then have "- 1 \<le> r / l" "r / l \<le> 1" by linarith+
  then obtain q where "rnd (r / l) = Fin q" "- 1 \<le> q" "q \<le> 1"
    using rnd_between [of "- 1" 1 "r / l"] by auto
  then show ?thesis using False l by (simp add: split_divisor_def split_ratio_def whichbig_def)
qed

lemma split_index_Fin:
  assumes "split_ratio a b = Fin q" "- 1 \<le> q" "q \<le> 1"
  shows "\<exists>k. split_index a b = Some k \<and> 0 \<le> k \<and> k \<le> 64"
proof -
  have "0 \<le> q + 1" "q + 1 \<le> 2" using assms by simp_all
  then obtain y where y: "rnd (q + 1) = Fin y" "0 \<le> y" "y \<le> 2"
    using rnd_between [of 0 2 "q + 1"] by auto
  have "0 \<le> y * 32" "y * 32 \<le> 64" using y by simp_all
  then obtain z where z: "rnd (y * 32) = Fin z" "0 \<le> z" "z \<le> 64"
    using rnd_between [of 0 64 "y * 32"] by auto
  have b: "0 \<le> rint z \<and> rint z \<le> 64" using z by (intro rint_bounds)
  then have "split_index a b = Some (rint z)"
    using assms(1) y(1) z(1) by (simp add: split_index_def trunc_of_int)
  then show ?thesis using b by blast
qed

lemma splitpoint_third_branch:
  assumes "0 < t" "out_of_tolerance (Fin l) (Fin r) (Fin t)"
  shows "\<exists>sp. splitpoint c (Fin l) (Fin r) (Fin t) = Inr sp \<and> 0.2113 \<le> sp \<and> sp \<le> 0.7887"
proof -
  obtain d q where q: "split_ratio (Fin l) (Fin r) = Fin q" "- 1 \<le> q" "q \<le> 1"
    using ratio_cases [OF assms] by blast
  obtain k where k: "split_index (Fin l) (Fin r) = Some k" "0 \<le> k" "k \<le> 64"
    using split_index_Fin [OF q] by blast
  have "nat k < 65" using k by simp
  then have "0.2113 \<le> splittab ! nat k \<and> splittab ! nat k \<le> 0.5"
    by (rule splittab_nth_range)
  then show ?thesis using k assms(2)
    by (simp add: splitpoint_def Let_def)
qed

lemma tenth_out_of_tolerance:
  "out_of_tolerance (Fin 0.03) (Fin r) (Fin 0.01)"
proof -
  have "dgt (rnd (\<bar>0.03\<bar> * 27)) (rnd (0.01 * 23))"
    by (rule dgt_rnd [of _ "1 / 4" "1 / 2"]) simp_all
  then show ?thesis by (simp only: out_of_tolerance_Fin) simp
qed

text \<open>
  Claim C3, as amended. Whatever the value of \<open>CCHALONG\<close>: \<open>splitpoint(NaN, 0.02, 0.01)\<close>
  returns \<open>CCHALONG\<close>; \<open>splitpoint(0.001, 0.001, 0.01)\<close> returns 0;
  \<open>splitpoint(0.03, -0.03, 0.01)\<close> returns 0.2113, the first entry of the table, since
  the ratio of the two deviations is -1; it is \<open>splitpoint(0.03, 0.03, 0.01)\<close>, with the
  ratio 1, that returns 0.5.
\<close>

theorem splitpoint_scenarios:
  "splitpoint c NaN (Fin 0.02) (Fin 0.01) = Inr c
   \<and> splitpoint c (Fin 0.001) (Fin 0.001) (Fin 0.01) = Inr 0
   \<and> splitpoint c (Fin 0.03) (Fin (- 0.03)) (Fin 0.01) = Inr 0.2113
   \<and> splitpoint c (Fin 0.03) (Fin 0.03) (Fin 0.01) = Inr 0.5"
proof -
  have a: "splitpoint c NaN (Fin 0.02) (Fin 0.01) = Inr c" by (simp add: splitpoint_def)
  have "\<not> out_of_tolerance (Fin 0.001) (Fin 0.001) (Fin 0.01)"
    by (rule within_not_out_of_tolerance) simp_all
  then have b: "splitpoint c (Fin 0.001) (Fin 0.001) (Fin 0.01) = Inr 0"
    by (simp add: splitpoint_def)
  have c: "splitpoint c (Fin 0.03) (Fin (- 0.03)) (Fin 0.01) = Inr 0.2113"
    using tenth_out_of_tolerance [of "- 0.03"]
    by (simp add: splitpoint_def split_index_def split_ratio_def
        whichbig_def rint_def trunc_def splittab_def)
  have d: "splitpoint c (Fin 0.03) (Fin 0.03) (Fin 0.01) = Inr 0.5"
    using tenth_out_of_tolerance [of "0.03"]
    by (simp add: splitpoint_def split_index_def split_ratio_def
        whichbig_def rint_def trunc_def splittab_def)
  show ?thesis using a b c d by blast
qed

text \<open>
  Claim C3 as stated fails: with \<open>CCHALONG\<close> at the value the specification gives,
  \<open>splitpoint(0.03, -0.03, 0.01)\<close> is 0.2113, which is not within 0.1 of 0.5.
\<close>

theorem splitpoint_opposite_signs_counterexample:
  "splitpoint 0.2113 (Fin 0.03) (Fin (- 0.03)) (Fin 0.01) = Inr 0.2113
   \<and> \<not> \<bar>(0.2113::real) - 0.5\<bar> < 0.1"
proof -
  have c: "splitpoint 0.2113 (Fin 0.03) (Fin (- 0.03)) (Fin 0.01) = Inr 0.2113"
    using tenth_out_of_tolerance [of "- 0.03"]
    by (simp add: splitpoint_def split_index_def split_ratio_def
        whichbig_def rint_def trunc_def splittab_def)
  show ?thesis using c by simp
qed

text \<open>
  Claim C4, as amended. For every positive tolerance: a NaN \<open>leftclamp\<close> gives \<open>CCHALONG\<close>,
  whatever \<open>rightclamp\<close> is; a finite \<open>leftclamp\<close> with a NaN \<open>rightclamp\<close> gives
  \<open>1 - CCHALONG\<close>; and for two finite clamp values the result is 0 if and only if
  neither product \<open>|leftclamp| * 27\<close>, \<open>|rightclamp| * 27\<close>, as computed in double
  arithmetic (rounded, and infinite on overflow), exceeds the computed
  \<open>tolerance * 23\<close>. In particular the result is 0 whenever both exact inequalities
  \<open>|leftclamp| * 27 \<le> tolerance * 23\<close> and \<open>|rightclamp| * 27 \<le> tolerance * 23\<close> hold.
\<close>

theorem splitpoint_branches:
  assumes "0 < t"
  shows "splitpoint c NaN rightclamp (Fin t) = Inr c
       \<and> splitpoint c (Fin l) NaN (Fin t) = Inr (1 - c)
       \<and> (splitpoint c (Fin l) (Fin r) (Fin t) = Inr 0
            \<longleftrightarrow> dle (dmul (dabs (Fin l)) (Fin 27)) (dmul (Fin t) (Fin 23))
              \<and> dle (dmul (dabs (Fin r)) (Fin 27)) (dmul (Fin t) (Fin 23)))
       \<and> (\<bar>l\<bar> * 27 \<le> t * 23 \<and> \<bar>r\<bar> * 27 \<le> t * 23
            \<longrightarrow> splitpoint c (Fin l) (Fin r) (Fin t) = Inr 0)"
proof -
  have a: "splitpoint c NaN rightclamp (Fin t) = Inr c" by (simp add: splitpoint_def)
  have b: "splitpoint c (Fin l) NaN (Fin t) = Inr (1 - c)" by (simp add: splitpoint_def)
  have o: "out_of_tolerance (Fin l) (Fin r) (Fin t)
            \<longleftrightarrow> \<not> (dle (dmul (dabs (Fin l)) (Fin 27)) (dmul (Fin t) (Fin 23))
                  \<and> dle (dmul (dabs (Fin r)) (Fin 27)) (dmul (Fin t) (Fin 23)))"
    by (simp add: out_of_tolerance_def dle_rnd_iff)
  have z: "splitpoint c (Fin l) (Fin r) (Fin t) = Inr 0
            \<longleftrightarrow> \<not> out_of_tolerance (Fin l) (Fin r) (Fin t)"
  proof (cases "out_of_tolerance (Fin l) (Fin r) (Fin t)")
    case True
    from splitpoint_third_branch [OF assms True, of c]
    obtain sp where "splitpoint c (Fin l) (Fin r) (Fin t) = Inr sp" "0.2113 \<le> sp" by blast
    then have "splitpoint c (Fin l) (Fin r) (Fin t) \<noteq> Inr 0" by auto
    then show ?thesis using True by simp
  next
    case False
    then show ?thesis by (simp add: splitpoint_def)
  qed
  have d: "splitpoint c (Fin l) (Fin r) (Fin t) = Inr 0"
    if "\<bar>l\<bar> * 27 \<le> t * 23 \<and> \<bar>r\<bar> * 27 \<le> t * 23"
    using that within_not_out_of_tolerance z by blast
  show ?thesis using a b z o d by blast
qed

text \<open>The tolerance 0.01 with the clamp values 0.001 and -0.0001.\<close>

theorem splitpoint_branches_witness:
  "(0::real) < 1 / 100
   \<and> splitpoint 0.2113 NaN PInf (Fin (1 / 100)) = Inr 0.2113
   \<and> splitpoint 0.2113 (Fin (1 / 1000)) NaN (Fin (1 / 100)) = Inr (1 - 0.2113)
   \<and> \<bar>1 / 1000 :: real\<bar> * 27 \<le> 1 / 100 * 23
   \<and> \<bar>- 1 / 10000 :: real\<bar> * 27 \<le> 1 / 100 * 23
   \<and> splitpoint 0.2113 (Fin (1 / 1000)) (Fin (- 1 / 10000)) (Fin (1 / 100)) = Inr 0
   \<and> dle (dmul (dabs (Fin (1 / 1000))) (Fin 27)) (dmul (Fin (1 / 100)) (Fin 23))
   \<and> dle (dmul (dabs (Fin (- 1 / 10000))) (Fin 27)) (dmul (Fin (1 / 100)) (Fin 23))"
proof -
  have h: "(0::real) < 1 / 100" by simp
  have w: "\<bar>1 / 1000 :: real\<bar> * 27 \<le> 1 / 100 * 23 \<and> \<bar>- 1 / 10000 :: real\<bar> * 27 \<le> 1 / 100 * 23"
    by simp
  note T = splitpoint_branches [OF h, where c = "0.2113" and rightclamp = PInf
        and l = "1 / 1000" and r = "- 1 / 10000"]
  have z: "splitpoint 0.2113 (Fin (1 / 1000)) (Fin (- 1 / 10000)) (Fin (1 / 100)) = Inr 0"
    using T w by blast
  then have "dle (dmul (dabs (Fin (1 / 1000))) (Fin 27)) (dmul (Fin (1 / 100)) (Fin 23))
   \<and> dle (dmul (dabs (Fin (- 1 / 10000))) (Fin 27)) (dmul (Fin (1 / 100)) (Fin 23))"
    using T by blast
  then show ?thesis using h w z T by blast
qed

text \<open>
  The two products \<open>(23 + 2^-48) * 27\<close> and \<open>(27 + 2^-48) * 23\<close> differ, and both round
  to the double \<open>621 + 2^-43\<close>.
\<close>

lemma rounded_clamp_product: "rnd ((23 + 1 / 2 ^ 48) * 27) = Fin (621 + 1 / 2 ^ 43)"
proof -
  have x: "((23 + 1 / 2 ^ 48) * 27 :: real) * 2 ^ 43 = of_int (5462373766791168 * 32 + 27) / of_int 32"
    by simp
  have "rint (((23 + 1 / 2 ^ 48) * 27 :: real) * 2 ^ 43) = 5462373766791168 + 1"
    unfolding x by (rule rint_ratio_up) simp_all
  then show ?thesis
    using rnd_eval [where j = 43 and a = "(23 + 1 / 2 ^ 48) * 27"] by simp
qed

lemma rounded_tolerance_product: "rnd ((27 + 1 / 2 ^ 48) * 23) = Fin (621 + 1 / 2 ^ 43)"
proof -
  have x: "((27 + 1 / 2 ^ 48) * 23 :: real) * 2 ^ 43 = of_int (5462373766791168 * 32 + 23) / of_int 32"
    by simp
  have "rint (((27 + 1 / 2 ^ 48) * 23 :: real) * 2 ^ 43) = 5462373766791168 + 1"
    unfolding x by (rule rint_ratio_up) simp_all
  then show ?thesis
    using rnd_eval [where j = 43 and a = "(27 + 1 / 2 ^ 48) * 23"] by simp
qed

text \<open>
  Claim C4 as stated fails: with \<open>leftclamp = 23 + 2^-48\<close>, \<open>rightclamp = 0\<close> and
  \<open>tolerance = 27 + 2^-48\<close>, all doubles, \<open>|leftclamp| * 27\<close> exceeds \<open>tolerance * 23\<close>,
  yet the two computed products are the same double and \<open>splitpoint\<close> returns 0.
\<close>

theorem splitpoint_rounded_products_counterexample:
  "(0::real) < 27 + 1 / 2 ^ 48
   \<and> splitpoint 0.2113 (Fin (23 + 1 / 2 ^ 48)) (Fin 0) (Fin (27 + 1 / 2 ^ 48)) = Inr 0
   \<and> \<not> (\<bar>23 + 1 / 2 ^ 48 :: real\<bar> * 27 \<le> (27 + 1 / 2 ^ 48) * 23)"
proof -
  have l: "dmul (dabs (Fin (23 + 1 / 2 ^ 48))) (Fin 27) = Fin (621 + 1 / 2 ^ 43)"
    using rounded_clamp_product by simp
  have t: "dmul (Fin (27 + 1 / 2 ^ 48)) (Fin 23) = Fin (621 + 1 / 2 ^ 43)"
    using rounded_tolerance_product by simp
  have "\<not> out_of_tolerance (Fin (23 + 1 / 2 ^ 48)) (Fin 0) (Fin (27 + 1 / 2 ^ 48))"
    unfolding out_of_tolerance_def l t by simp
  then have "splitpoint 0.2113 (Fin (23 + 1 / 2 ^ 48)) (Fin 0) (Fin (27 + 1 / 2 ^ 48)) = Inr 0"
    by (simp add: splitpoint_def)
  then show ?thesis by simp
qed

text \<open>
  Claim C10, as amended. For finite clamp values and a positive tolerance, when the
  comparison of the program finds one of the two computed products
  \<open>|leftclamp| * 27\<close>, \<open>|rightclamp| * 27\<close> above the computed \<open>tolerance * 23\<close>: the divisor
  of the ratio is nonzero, the computed ratio is in [-1, 1], the index
  \<open>(int)rint((ratio + 1) * 32)\<close>, computed in double arithmetic, is in [0, 64], inside
  the table, and \<open>splitpoint\<close> returns a fraction in [0.2113, 0.7887].
\<close>

theorem splitpoint_index_in_bounds:
  assumes "0 < t" "out_of_tolerance (Fin l) (Fin r) (Fin t)"
  shows "\<exists>d q k sp.
           split_divisor (Fin l) (Fin r) = Fin d \<and> d \<noteq> 0
         \<and> split_ratio (Fin l) (Fin r) = Fin q \<and> - 1 \<le> q \<and> q \<le> 1
         \<and> split_index (Fin l) (Fin r) = Some k
         \<and> 0 \<le> k \<and> k \<le> 64 \<and> nat k < length splittab
         \<and> splitpoint c (Fin l) (Fin r) (Fin t) = Inr sp \<and> 0.2113 \<le> sp \<and> sp \<le> 0.7887"
proof -
  obtain d q where q: "split_divisor (Fin l) (Fin r) = Fin d" "d \<noteq> 0"
      "split_ratio (Fin l) (Fin r) = Fin q" "- 1 \<le> q" "q \<le> 1"
    using ratio_cases [OF assms] by blast
  obtain k where k: "split_index (Fin l) (Fin r) = Some k" "0 \<le> k" "k \<le> 64"
    using split_index_Fin [OF q(3,4,5)] by blast
  have n: "nat k < length splittab" using k by (simp add: splittab_length)
  obtain sp where sp: "splitpoint c (Fin l) (Fin r) (Fin t) = Inr sp"
      "0.2113 \<le> sp" "sp \<le> 0.7887"
    using splitpoint_third_branch [OF assms] by blast
  show ?thesis using q k n sp by blast
qed

text \<open>The tolerance 0.01 with the clamp values 0.03 and -0.01.\<close>

theorem splitpoint_index_in_bounds_witness:
  "(0::real) < 0.01
   \<and> out_of_tolerance (Fin 0.03) (Fin (- 0.01)) (Fin 0.01)
   \<and> (\<exists>d q k sp.
           split_divisor (Fin 0.03) (Fin (- 0.01)) = Fin d \<and> d \<noteq> 0
         \<and> split_ratio (Fin 0.03) (Fin (- 0.01)) = Fin q \<and> - 1 \<le> q \<and> q \<le> 1
         \<and> split_index (Fin 0.03) (Fin (- 0.01)) = Some k
         \<and> 0 \<le> k \<and> k \<le> 64 \<and> nat k < length splittab
         \<and> splitpoint 0.2113 (Fin 0.03) (Fin (- 0.01)) (Fin 0.01) = Inr sp
         \<and> 0.2113 \<le> sp \<and> sp \<le> 0.7887)"
proof -
  have h1: "(0::real) < 0.01" by simp
  have h2: "out_of_tolerance (Fin 0.03) (Fin (- 0.01)) (Fin 0.01)"
    by (rule tenth_out_of_tolerance)
  show ?thesis using h1 h2 splitpoint_index_in_bounds [OF h1 h2, of "0.2113"] by blast
qed

text \<open>
  The sum \<open>ratio + 1\<close> is rounded before it is multiplied: for the clamp values 1 and
  \<open>61/64 + 2^-53\<close> the sum rounds to 125/64, the product is 62.5, and the index is 62;
  the exact sum would give 63.
\<close>

lemma rint_tie_even: "even q \<Longrightarrow> rint (of_int q + 1 / 2) = q"
proof -
  assume e: "even q"
  have f: "\<lfloor>of_int q + 1 / 2 :: real\<rfloor> = q" by (intro floor_unique) simp_all
  show ?thesis unfolding rint_def Let_def f using e by simp
qed

lemma index_ratio:
  "split_ratio (Fin 1) (Fin (61 / 64 + 1 / 2 ^ 53)) = Fin (61 / 64 + 1 / 2 ^ 53)"
proof -
  have x: "(61 / 64 + 1 / 2 ^ 53 :: real) = of_int (61 * 2 ^ 47 + 1) / 2 ^ 53" by simp
  have "rnd (61 / 64 + 1 / 2 ^ 53) = Fin (61 / 64 + 1 / 2 ^ 53)"
    unfolding x by (rule rnd_dyadic) simp_all
  then show ?thesis by (simp add: split_ratio_def whichbig_def)
qed

lemma index_sum: "dadd (Fin (61 / 64 + 1 / 2 ^ 53)) (Fin 1) = Fin (125 / 64)"
proof -
  have x: "((61 / 64 + 1 / 2 ^ 53 + 1) :: real) * 2 ^ 52 = of_int (125 * 2 ^ 46) + 1 / 2"
    by simp
  have "rint (((61 / 64 + 1 / 2 ^ 53 + 1) :: real) * 2 ^ 52) = 125 * 2 ^ 46"
    unfolding x by (rule rint_tie_even) simp
  then have "rnd (61 / 64 + 1 / 2 ^ 53 + 1) = Fin (125 / 64)"
    using rnd_eval [where j = 52 and a = "61 / 64 + 1 / 2 ^ 53 + 1"] by simp
  then show ?thesis by simp
qed

lemma index_rounded_sum: "split_index (Fin 1) (Fin (61 / 64 + 1 / 2 ^ 53)) = Some 62"
proof -
  have m: "dmul (Fin (125 / 64)) (Fin 32) = Fin (125 / 2)" by simp
  have r: "rint (125 / 2) = 62" using rint_tie_even [of 62] by simp
  show ?thesis
    unfolding split_index_def index_ratio index_sum m by (simp add: r trunc_def)
qed

text \<open>Both products \<open>2^1023 * 27\<close> and \<open>2^1023 * 23\<close> overflow to plus infinity.\<close>

lemma overflow_products:
  "dmul (Fin (2 ^ 1023)) (Fin 27) = PInf" "dmul (Fin (2 ^ 1023)) (Fin 23) = PInf"
proof -
  have "huge \<le> 2 ^ 1023 * 27" "huge \<le> 2 ^ 1023 * 23" by (simp_all add: huge_def)
  then show "dmul (Fin (2 ^ 1023)) (Fin 27) = PInf" "dmul (Fin (2 ^ 1023)) (Fin 23) = PInf"
    by (simp_all only: dmul.simps rnd_overflow)
qed

text \<open>
  Claim C10 as stated fails: with \<open>leftclamp = tolerance = 2^1023\<close> and \<open>rightclamp = 0\<close>,
  all finite, \<open>|leftclamp| * 27\<close> exceeds \<open>tolerance * 23\<close>, yet both computed products are
  plus infinity, the comparison is false and \<open>splitpoint\<close> returns 0, which is not in
  [0.2113, 0.7887].
\<close>

theorem splitpoint_overflow_counterexample:
  "(0::real) < 2 ^ 1023
   \<and> (2 ^ 1023 * 23 < \<bar>2 ^ 1023 :: real\<bar> * 27 \<or> 2 ^ 1023 * 23 < \<bar>0 :: real\<bar> * 27)
   \<and> splitpoint 0.2113 (Fin (2 ^ 1023)) (Fin 0) (Fin (2 ^ 1023)) = Inr 0
   \<and> \<not> (0.2113 \<le> (0::real))"
proof -
  have a: "dabs (Fin (2 ^ 1023)) = Fin (2 ^ 1023)" "dabs (Fin 0) = Fin 0"
    "dmul (Fin 0) (Fin 27) = Fin 0"
    by simp_all
  have "\<not> out_of_tolerance (Fin (2 ^ 1023)) (Fin 0) (Fin (2 ^ 1023))"
    unfolding out_of_tolerance_def a overflow_products by simp
  then have "splitpoint 0.2113 (Fin (2 ^ 1023)) (Fin 0) (Fin (2 ^ 1023)) = Inr 0"
    by (simp add: splitpoint_def)
  then show ?thesis by simp
qed

section \<open>Properties of \<open>smoothcontours\<close>\<close>

text \<open>The double nearest to 0.1 is \<open>3602879701896397 / 2^55\<close>.\<close>

lemma dlit_tenth: "dlit 0.1 = Fin (3602879701896397 / 2 ^ 55)"
proof -
  have x: "(1 / 10 :: real) * 2 ^ 56 = of_int (7205759403792793 * 10 + 6) / of_int 10"
    by simp
  have "rint ((1 / 10 :: real) * 2 ^ 56) = 7205759403792793 + 1"
    unfolding x by (rule rint_ratio_up) simp_all
  then show ?thesis
    using rnd_eval [where j = 56 and a = "1 / 10"] by (simp add: dlit_def)
qed

lemma rnd_tenth_double:
  "rnd (3602879701896397 / 2 ^ 55) = Fin (3602879701896397 / 2 ^ 55)"
  using rnd_dyadic [of 3602879701896397 55] by simp

text \<open>
  Claim C2. The claim, like the comment in \<open>smoothcontours\<close>, gives the first pass half
  the contour interval as tolerance and the second pass a tenth. The code computes the
  factor as \<open>k?0.5:0.1\<close>: with the interval 1 and a contour of 4 segments that has not
  grown, the first pass (\<open>k = 0\<close>) gets the tolerance 0.1 (the double nearest to it)
  and the second (\<open>k = 1\<close>) gets 0.5. The contour is smoothed at the start of the
  second pass only.
\<close>

theorem pass_tolerance_swapped:
  "pass_tolerance (Fin 1) 0 4 4 = dlit 0.1 \<and> pass_tolerance (Fin 1) 1 4 4 = dlit 0.5
   \<and> dlit 0.1 = Fin (3602879701896397 / 2 ^ 55) \<and> dlit 0.5 = Fin 0.5
   \<and> pass_contour smooth 0 c = c \<and> pass_contour smooth 1 c = smooth c"
proof -
  have h: "dlit 0.5 = Fin 0.5" by (simp add: dlit_def)
  have a: "pass_tolerance (Fin 1) 0 4 4 = dlit 0.1"
    unfolding pass_tolerance_def wide_def dlit_tenth using rnd_tenth_double by simp
  have b: "pass_tolerance (Fin 1) 1 4 4 = dlit 0.5"
    unfolding pass_tolerance_def wide_def h by simp
  show ?thesis using a b h dlit_tenth by (simp add: pass_contour_def)
qed

lemma seg_midpoint: "xy_of (xyz_midpoint seg_start seg_end) = XY (Fin (3 / 2)) (Fin 0)"
  by (simp add: seg_start_def seg_end_def)

lemma seg_xy:
  "xy_of seg_start = XY (Fin 0) (Fin 0)" "xy_of seg_end = XY (Fin 3) (Fin 0)"
  "xy_of seg_lpt = XY (Fin 1) (Fin 0)" "xy_of seg_rpt = XY (Fin 2) (Fin 0)"
  "elev_of seg_lpt = Fin 0" "elev_of seg_rpt = Fin 0"
  by (simp_all add: seg_start_def seg_end_def seg_lpt_def seg_rpt_def)

lemma splitpoint_both_minus_ten:
  "splitpoint (2113 / 10000) (Fin (- 10)) (Fin (- 10)) (Fin (1 / 2)) = Inr (1 / 2)"
  "splitpoint (2113 / 10000) (Fin (- 10)) (Fin (- 10)) (Fin 0) = Inr (1 / 2)"
  by (simp_all add: splitpoint_def out_of_tolerance_def split_index_def split_ratio_def
      whichbig_def rint_def trunc_def splittab_def)

lemma splitpoint_both_zero: "splitpoint c (Fin 0) (Fin 0) (Fin (1 / 2)) = Inr 0"
  by (simp add: splitpoint_def out_of_tolerance_def)

text \<open>
  Claim C5, as amended. For a visited segment with finite sample points: when the index
  finds no triangle at the midpoint, the split fraction is 0.5 and the event is
  reported. When it finds a triangle that contains both ends of the segment but not
  both sample points, the deviations are taken from the mesh-wide elevation query, and
  the tolerance is 0. In every other case, also when the triangle does not contain an
  end of the segment, the deviations are taken from the elevation function of that
  triangle, with the tolerance of the pass.
\<close>

theorem probe_segment_elevation_source:
  "(findt S (xy_of (xyz_midpoint start end)) = None \<longrightarrow>
      probe_segment c S conterval wd start end lpt rpt = (Inr 0.5, [MidptriIsNull]))
   \<and> (\<forall>t. findt S (xy_of (xyz_midpoint start end)) = Some t \<longrightarrow>
        (tri_in S t (xy_of start) \<and> tri_in S t (xy_of end)
           \<and> \<not> (tri_in S t (xy_of lpt) \<and> tri_in S t (xy_of rpt)) \<longrightarrow>
         probe_segment c S conterval wd start end lpt rpt =
           (splitpoint c (dsub (elev_of lpt) (pl_elevation S (xy_of lpt)))
                         (dsub (elev_of rpt) (pl_elevation S (xy_of rpt))) (Fin 0), []))
      \<and> (\<not> (tri_in S t (xy_of start) \<and> tri_in S t (xy_of end)
              \<and> \<not> (tri_in S t (xy_of lpt) \<and> tri_in S t (xy_of rpt))) \<longrightarrow>
         probe_segment c S conterval wd start end lpt rpt =
           (splitpoint c (dsub (elev_of lpt) (tri_elevation S t (xy_of lpt)))
                         (dsub (elev_of rpt) (tri_elevation S t (xy_of rpt)))
                         (dmul conterval wd), [])))"
  by (auto simp: probe_segment_def)

theorem probe_segment_elevation_source_witness:
  "probe_segment 0.2113 S_null (Fin 1) (Fin 0.5) seg_start seg_end seg_lpt seg_rpt
     = (Inr 0.5, [MidptriIsNull])
   \<and> probe_segment 0.2113 S_bulge (Fin 1) (Fin 0.5) seg_start seg_end seg_lpt seg_rpt
     = (Inr 0.5, [])
   \<and> probe_segment 0.2113 S_part (Fin 1) (Fin 0.5) seg_start seg_end seg_lpt seg_rpt
     = (Inr 0, [])"
proof -
  note T = probe_segment_elevation_source
  have n: "findt S_null (xy_of (xyz_midpoint seg_start seg_end)) = None"
    by (simp add: S_null_def)
  have a: "probe_segment 0.2113 S_null (Fin 1) (Fin 0.5) seg_start seg_end seg_lpt seg_rpt
     = (Inr 0.5, [MidptriIsNull])"
    using T [of S_null seg_start seg_end "0.2113" "Fin 1" "Fin 0.5" seg_lpt seg_rpt] n
    by blast
  have fb: "findt S_bulge (xy_of (xyz_midpoint seg_start seg_end)) = Some 0"
    by (simp add: S_bulge_def)
  have cb: "tri_in S_bulge 0 (xy_of seg_start) \<and> tri_in S_bulge 0 (xy_of seg_end)
           \<and> \<not> (tri_in S_bulge 0 (xy_of seg_lpt) \<and> tri_in S_bulge 0 (xy_of seg_rpt))"
    by (simp add: S_bulge_def seg_xy)
  have "probe_segment 0.2113 S_bulge (Fin 1) (Fin 0.5) seg_start seg_end seg_lpt seg_rpt
     = (splitpoint 0.2113 (dsub (elev_of seg_lpt) (pl_elevation S_bulge (xy_of seg_lpt)))
                         (dsub (elev_of seg_rpt) (pl_elevation S_bulge (xy_of seg_rpt)))
                         (Fin 0), [])"
    using T [of S_bulge seg_start seg_end "0.2113" "Fin 1" "Fin 0.5" seg_lpt seg_rpt] fb cb
    by blast
  then have b: "probe_segment 0.2113 S_bulge (Fin 1) (Fin 0.5) seg_start seg_end seg_lpt seg_rpt
     = (Inr 0.5, [])"
    by (simp add: S_bulge_def seg_xy dsub_def splitpoint_both_minus_ten)
  have fp: "findt S_part (xy_of (xyz_midpoint seg_start seg_end)) = Some 0"
    by (simp add: S_part_def)
  have cp: "\<not> (tri_in S_part 0 (xy_of seg_start) \<and> tri_in S_part 0 (xy_of seg_end)
           \<and> \<not> (tri_in S_part 0 (xy_of seg_lpt) \<and> tri_in S_part 0 (xy_of seg_rpt)))"
    by (simp add: S_part_def seg_xy)
  have "probe_segment 0.2113 S_part (Fin 1) (Fin 0.5) seg_start seg_end seg_lpt seg_rpt
     = (splitpoint 0.2113 (dsub (elev_of seg_lpt) (tri_elevation S_part 0 (xy_of seg_lpt)))
                         (dsub (elev_of seg_rpt) (tri_elevation S_part 0 (xy_of seg_rpt)))
                         (dmul (Fin 1) (Fin 0.5)), [])"
    using T [of S_part seg_start seg_end "0.2113" "Fin 1" "Fin 0.5" seg_lpt seg_rpt] fp cp
    by blast
  then have c: "probe_segment 0.2113 S_part (Fin 1) (Fin 0.5) seg_start seg_end seg_lpt seg_rpt
     = (Inr 0, [])"
    by (simp add: S_part_def seg_xy dsub_def splitpoint_both_zero)
  show ?thesis using a b c by blast
qed

text \<open>
  Claim C5 as stated fails on \<open>S_part\<close>: the triangle found at the midpoint does not
  contain the end of the segment, so by the claim the deviations come from the
  mesh-wide query; they would be -10 and -10 and the split fraction 0.5, at the
  tolerance of the pass as at the tolerance 0. The code takes the deviations from the
  triangle's elevation function: they are 0 and 0, and the split fraction is 0.
\<close>

theorem probe_segment_outside_triangle_counterexample:
  "findt S_part (xy_of (xyz_midpoint seg_start seg_end)) = Some 0
   \<and> \<not> tri_in S_part 0 (xy_of seg_end)
   \<and> probe_segment 0.2113 S_part (Fin 1) (Fin 0.5) seg_start seg_end seg_lpt seg_rpt
       = (Inr 0, [])
   \<and> splitpoint 0.2113 (dsub (elev_of seg_lpt) (pl_elevation S_part (xy_of seg_lpt)))
         (dsub (elev_of seg_rpt) (pl_elevation S_part (xy_of seg_rpt))) (Fin 0.5) = Inr 0.5
   \<and> splitpoint 0.2113 (dsub (elev_of seg_lpt) (pl_elevation S_part (xy_of seg_lpt)))
         (dsub (elev_of seg_rpt) (pl_elevation S_part (xy_of seg_rpt))) (Fin 0) = Inr 0.5"
proof -
  have a: "findt S_part (xy_of (xyz_midpoint seg_start seg_end)) = Some 0"
    by (simp add: S_part_def)
  have b: "\<not> tri_in S_part 0 (xy_of seg_end)"
    by (simp add: S_part_def seg_xy)
  have c: "probe_segment 0.2113 S_part (Fin 1) (Fin 0.5) seg_start seg_end seg_lpt seg_rpt
       = (Inr 0, [])"
    by (simp add: probe_segment_def S_part_def seg_xy seg_midpoint dsub_def splitpoint_both_zero)
  have d: "dsub (elev_of seg_lpt) (pl_elevation S_part (xy_of seg_lpt)) = Fin (- 10)"
    "dsub (elev_of seg_rpt) (pl_elevation S_part (xy_of seg_rpt)) = Fin (- 10)"
    by (simp_all add: S_part_def seg_xy dsub_def)
  show ?thesis using a b c by (simp add: d splitpoint_both_minus_ten)
qed

section \<open>Properties of \<open>contstarts\<close>\<close>

lemma scan_sides_filter:
  "scan_sides M elev io i t js ret =
     ret @ filter (\<lambda>ep. crosses M t (subdir M t ep) elev \<and> (io \<noteq> 0 \<or> upleft M t (subdir M t ep)))
             (map (\<lambda>j. j + edge_address i) js)"
  by (induction js arbitrary: ret) (simp_all add: Let_def)

lemma scan_sides_edge_seeds:
  "seed_triangle M i = Some t \<Longrightarrow>
   scan_sides M elev io i t [0, 1, 2] ret = ret @ edge_seeds M elev io i"
  by (simp add: scan_sides_filter edge_seeds_def is_crossing_def is_upleft_def)

lemma scan_edges_closed:
  "scan_edges M elev io is ret =
     (if \<forall>i\<in>set is. (io \<noteq> 0) = isinterior (edges M ! i) \<longrightarrow> seed_triangle M i \<noteq> None
      then Inr (ret @ concat (map (edge_seeds M elev io)
                                (filter (\<lambda>i. isinterior (edges M ! i) = (io \<noteq> 0)) is)))
      else Inl AssertionFailed)"
proof (induction "is" arbitrary: ret)
  case Nil
  show ?case by simp
next
  case (Cons i "is")
  show ?case
  proof (cases "(io \<noteq> 0) = isinterior (edges M ! i)")
    case False
    then show ?thesis using Cons.IH [of ret] by auto
  next
    case True
    show ?thesis
    proof (cases "seed_triangle M i")
      case None
      then show ?thesis using True by (simp add: seed_triangle_def)
    next
      case (Some t)
      have "scan_edges M elev io (i # is) ret
            = scan_edges M elev io is (ret @ edge_seeds M elev io i)"
        using True Some scan_sides_edge_seeds [OF Some, of elev io ret]
        by (simp add: seed_triangle_def)
      then show ?thesis using True Some Cons.IH [of "ret @ edge_seeds M elev io i"] by auto
    qed
  qed
qed

lemma filter_edge_handles:
  "map snd (filter P (edge_handles M b)) =
     concat (map (\<lambda>i. map snd (filter P (map (\<lambda>j. (i, j + edge_address i)) [0, 1, 2])))
               (filter (\<lambda>i. isinterior (edges M ! i) = b) [0 ..< length (edges M)]))"
  unfolding edge_handles_def by (simp add: filter_concat map_concat comp_def)

lemma seeds_selected_concat:
  "seeds_selected M elev =
     concat (map (edge_seeds M elev 0) (filter (\<lambda>i. isinterior (edges M ! i) = False) [0 ..< length (edges M)]))
     @ concat (map (edge_seeds M elev 1) (filter (\<lambda>i. isinterior (edges M ! i) = True) [0 ..< length (edges M)]))"
  unfolding seeds_selected_def filter_edge_handles edge_seeds_def by simp

text \<open>
  Claim C1, as amended. For every mesh and elevation \<open>contstarts\<close> scans the edges in two
  passes, all exterior edges before all interior edges, each pass in storage order with
  the three handles of an edge in order. On an exterior edge a crossing is a seed only
  when it is classified upleft; on an interior edge every crossing is a seed. An edge
  without a triangle fails the assertion.
\<close>

theorem contstarts_seed_rule:
  "contstarts M elev =
     (if \<forall>i < length (edges M). seed_triangle M i \<noteq> None
      then Inr (seeds_selected M elev) else Inl AssertionFailed)"
proof (cases "\<forall>i < length (edges M). seed_triangle M i \<noteq> None")
  case True
  then show ?thesis
    unfolding contstarts_def scan_edges_closed seeds_selected_concat by auto
next
  case False
  then obtain i where i: "i < length (edges M)" "seed_triangle M i = None" by blast
  show ?thesis
  proof (cases "isinterior (edges M ! i)")
    case True
    then have "\<not> (\<forall>i\<in>set [0 ..< length (edges M)]. ((1::nat) \<noteq> 0) = isinterior (edges M ! i) \<longrightarrow> seed_triangle M i \<noteq> None)"
      using i by auto
    then show ?thesis using False
      unfolding contstarts_def scan_edges_closed by (auto split: sum.splits if_splits)
  next
    case F: False
    then have "\<not> (\<forall>i\<in>set [0 ..< length (edges M)]. ((0::nat) \<noteq> 0) = isinterior (edges M ! i) \<longrightarrow> seed_triangle M i \<noteq> None)"
      using i by auto
    then show ?thesis using False
      unfolding contstarts_def scan_edges_closed by (auto split: sum.splits if_splits)
  qed
qed

theorem contstarts_seed_rule_witness:
  "contstarts M_seed (Fin 5) = Inr [8]"
proof -
  have h: "\<forall>i < length (edges M_seed). seed_triangle M_seed i \<noteq> None"
    by (simp add: M_seed_def seed_triangle_def less_Suc_eq)
  have s: "seeds_selected M_seed (Fin 5) = [8]"
    by (simp add: seeds_selected_def edge_handles_def is_crossing_def is_upleft_def
        seed_triangle_def M_seed_def edge_address_def upt_rec)
  have "contstarts M_seed (Fin 5) = Inr (seeds_selected M_seed (Fin 5))"
    using contstarts_seed_rule [of M_seed "Fin 5"] h by presburger
  then show ?thesis using s by simp
qed

text \<open>
  Claim C1 as stated fails on \<open>M_seed\<close>, where no crossing is upleft: by the claim the
  crossing on the exterior edge (handle 4) is a seed and the one on the interior edge
  (handle 8) is not; \<open>contstarts\<close> returns the interior one and not the exterior one.
\<close>

theorem contstarts_seed_rule_counterexample:
  "contstarts M_seed (Fin 5) = Inr [8] \<and> seeds_specified M_seed (Fin 5) = [4]"
proof -
  have a: "contstarts M_seed (Fin 5) = Inr [8]"
    by (simp add: contstarts_def M_seed_def edge_address_def upt_rec Let_def)
  have b: "seeds_specified M_seed (Fin 5) = [4]"
    by (simp add: seeds_specified_def edge_handles_def is_crossing_def is_upleft_def
        seed_triangle_def M_seed_def edge_address_def upt_rec)
  show ?thesis using a b by blast
qed

section \<open>Properties of the loops inside a triangle\<close>

lemma walk_step_steps: "w_steps (walk_step M tri elev edgep w) = Suc (w_steps w)"
  by (simp add: walk_step_def Let_def)

lemma walk_step_log:
  "\<exists>ms. w_log (walk_step M tri elev edgep w) = w_log w @ ms \<and> list_all walk_msg ms"
  by (simp add: walk_step_def Let_def walk_msg_def)

lemma inner_walk_steps:
  "w_steps (inner_walk M tri elev edgep w) \<le> w_steps w + max 1 (256 - w_i w)"
proof (induction M tri elev edgep w rule: inner_walk.induct)
  case (1 M tri elev edgep w)
  let ?w' = "walk_step M tri elev edgep w"
  show ?case
  proof (cases "0 \<le> w_subnext ?w' \<and> Suc (w_i ?w') < 256")
    case True
    then have "w_steps (inner_walk M tri elev edgep (?w'\<lparr>w_i := Suc (w_i ?w')\<rparr>))
        \<le> w_steps (?w'\<lparr>w_i := Suc (w_i ?w')\<rparr>) + max 1 (256 - w_i (?w'\<lparr>w_i := Suc (w_i ?w')\<rparr>))"
      using "1.IH" [of ?w'] by simp
    moreover have "inner_walk M tri elev edgep w = inner_walk M tri elev edgep (?w'\<lparr>w_i := Suc (w_i ?w')\<rparr>)"
      using True by (subst inner_walk.simps) (simp add: Let_def)
    ultimately have "w_steps (inner_walk M tri elev edgep w)
        \<le> Suc (w_steps w) + max 1 (256 - Suc (w_i w))"
      by (simp add: walk_step_steps walk_step_i)
    moreover have "Suc (w_i w) < 256" using True by (simp add: walk_step_i)
    ultimately show ?thesis by arith
  next
    case False
    then have "w_steps (inner_walk M tri elev edgep w) = Suc (w_steps w)"
      by (subst inner_walk.simps) (auto simp: Let_def walk_step_steps)
    then show ?thesis by simp
  qed
qed

lemma inner_walk_log:
  "\<exists>ms. w_log (inner_walk M tri elev edgep w) = w_log w @ ms \<and> list_all walk_msg ms"
proof (induction M tri elev edgep w rule: inner_walk.induct)
  case (1 M tri elev edgep w)
  let ?w' = "walk_step M tri elev edgep w"
  obtain ms where ms: "w_log ?w' = w_log w @ ms" "list_all walk_msg ms"
    using walk_step_log by blast
  show ?case
  proof (cases "0 \<le> w_subnext ?w' \<and> Suc (w_i ?w') < 256")
    case True
    then obtain ms' where ms': "w_log (inner_walk M tri elev edgep (?w'\<lparr>w_i := Suc (w_i ?w')\<rparr>))
        = w_log (?w'\<lparr>w_i := Suc (w_i ?w')\<rparr>) @ ms'" "list_all walk_msg ms'"
      using "1.IH" [of ?w'] by auto
    have "inner_walk M tri elev edgep w = inner_walk M tri elev edgep (?w'\<lparr>w_i := Suc (w_i ?w')\<rparr>)"
      using True by (subst inner_walk.simps) (simp add: Let_def)
    then have "w_log (inner_walk M tri elev edgep w) = w_log w @ (ms @ ms')"
      using ms ms' by simp
    moreover have "list_all walk_msg (ms @ ms')" using ms ms' by simp
    ultimately show ?thesis by blast
  next
    case False
    then have "w_log (inner_walk M tri elev edgep w) = w_log ?w'"
      by (subst inner_walk.simps) (auto simp: Let_def)
    then show ?thesis using ms by auto
  qed
qed

lemma collect_length:
  "length (snd (collect M tri elev start j sube)) \<le> max 256 (length sube)"
proof (induction M tri elev start j sube rule: collect.induct)
  case (1 M tri elev start j sube)
  show ?case
  proof (cases "sube = [] \<or>
         (start mod 65536 < j mod 65536 \<and> j mod 65536 < int (subdiv_size M tri)
          \<and> length sube < 256)")
    case True
    then have l: "length sube < 256" by (elim disjE conjE) simp_all
    have "collect M tri elev start j sube = collect M tri elev start (proceed M tri j elev) (sube @ [j])"
      by (subst collect.simps) (rule if_P, rule True)
    moreover have "length (snd (collect M tri elev start (proceed M tri j elev) (sube @ [j])))
       \<le> max 256 (length (sube @ [j]))" using "1.IH" True by blast
    ultimately show ?thesis using l by simp
  next
    case False
    have "collect M tri elev start j sube = (j, sube)"
      by (subst collect.simps) (rule if_not_P, rule False)
    then show ?thesis by simp
  qed
qed

text \<open>
  Claim C9, as amended. Every intra-triangle walk is bounded to 256 iterations: the
  body of the inner loop of \<open>trace\<close>, started with \<open>i = 0\<close>, runs at most 256 times per
  triangle, and the inner loop of \<open>intrace\<close> collects at most 256 entries; both loops
  terminate whatever \<open>proceed\<close> returns (the functions are total). Reaching the cap
  only ends the loop: the inner walk writes nothing but its messages about a
  sub-segment that did not change and about a repeated crossing point, \<open>intrace\<close>
  writes nothing at all, and the function goes on from the sub-segment reached.
\<close>

theorem intra_triangle_walks_bounded:
  "w_steps (inner_walk M tri elev edgep (w\<lparr>w_i := 0, w_steps := 0\<rparr>)) \<le> 256
   \<and> length (snd (collect M tri elev start j [])) \<le> 256
   \<and> (\<exists>ms. w_log (inner_walk M tri elev edgep w) = w_log w @ ms \<and> list_all walk_msg ms)"
proof -
  have a: "w_steps (inner_walk M tri elev edgep (w\<lparr>w_i := 0, w_steps := 0\<rparr>)) \<le> 256"
    using inner_walk_steps [of M tri elev edgep "w\<lparr>w_i := 0, w_steps := 0\<rparr>"] by simp
  have b: "length (snd (collect M tri elev start j [])) \<le> 256"
    using collect_length [of M tri elev start j "[]"] by simp
  show ?thesis using a b inner_walk_log by blast
qed

lemma M_cap_fields:
  "edges M_cap = [\<lparr>tria = Some 0, trib = None, isinterior = False\<rparr>,
               \<lparr>tria = Some 0, trib = None, isinterior = False\<rparr>]"
  "subdir M_cap = (\<lambda>t ep. int ep)"
  "upleft M_cap = (\<lambda>t sd. True)"
  "proceed M_cap = (\<lambda>t sd elev. sd + 1)"
  "contourcept M_cap = (\<lambda>t sd elev. if sd = 4 then XY (Fin 0) (Fin 0) else XY NaN NaN)"
  "edgepart M_cap = (\<lambda>t sd. if sd = 260 then 8 else 0)"
  "othertri M_cap = (\<lambda>e t. None)"
  by (simp_all add: M_cap_def)

lemma cap_inner_walk:
  "inner_walk M_cap 0 (Fin 5) 4
     \<lparr>w_subedge = 4, w_subnext = 0, w_i = 0, w_lastcept = XY (Fin 0) (Fin 0),
      w_ret = \<lparr>elevation = Fin 5, points = [XY (Fin 0) (Fin 0)], isopen = False\<rparr>,
      w_log = [], w_steps = 0\<rparr>
   = \<lparr>w_subedge = 260, w_subnext = 260, w_i = 256, w_lastcept = XY (Fin 0) (Fin 0),
      w_ret = \<lparr>elevation = Fin 5, points = [XY (Fin 0) (Fin 0)], isopen = False\<rparr>,
      w_log = [], w_steps = 256\<rparr>"
  by (simp add: inner_walk.simps walk_step_def M_cap_fields Let_def)

text \<open>
  Claim C9 as stated fails on \<open>M_cap\<close>: the inner walk of \<open>trace\<close> runs its 256 turns
  with \<open>proceed\<close> still inside the triangle, and neither the walk nor the whole of
  \<open>trace\<close> reports anything; \<open>trace\<close> goes on to the edge of the sub-segment reached
  and returns an open polyline.
\<close>

theorem cap_exhausted_unreported_counterexample:
  "w_steps (inner_walk M_cap 0 (Fin 5) 4 cap_walk) = 256
   \<and> 0 \<le> w_subnext (inner_walk M_cap 0 (Fin 5) 4 cap_walk)
   \<and> w_log (inner_walk M_cap 0 (Fin 5) 4 cap_walk) = []
   \<and> traced_log (trace M_cap no_marks 4 (Fin 5)) = Some []
   \<and> traced_open (trace M_cap no_marks 4 (Fin 5)) = Some True"
proof -
  have a: "inner_walk M_cap 0 (Fin 5) 4 cap_walk =
     \<lparr>w_subedge = 260, w_subnext = 260, w_i = 256, w_lastcept = XY (Fin 0) (Fin 0),
      w_ret = \<lparr>elevation = Fin 5, points = [XY (Fin 0) (Fin 0)], isopen = False\<rparr>,
      w_log = [], w_steps = 256\<rparr>"
    by (simp add: cap_walk_def pl_insert_def new_polyline_def cap_inner_walk)
  have t: "trace M_cap no_marks 4 (Fin 5) =
      Inr \<lparr>tr_poly = \<lparr>elevation = Fin 5, points = [XY (Fin 0) (Fin 0)], isopen = True\<rparr>,
           tr_marking = \<lparr>marks = {(1, 0), (0, 0)}, markcalls = [4, 8]\<rparr>, tr_log = [],
           tr_reached = [4, 8]\<rparr>"
    by (simp add: trace_loop.simps trace_body_def trace_def trace_walk_def
        trace_start_def trace_finish_def start_triangle_def handle_edge_def handle_side_def
        mark_def ismarked_def new_polyline_def pl_insert_def pl_open_def xy_ne_def Let_def
        no_marks_def M_cap_fields cap_inner_walk)
  have b: "traced_log (trace M_cap no_marks 4 (Fin 5)) = Some []"
    by (simp add: t traced_log_def)
  have c: "traced_open (trace M_cap no_marks 4 (Fin 5)) = Some True"
    by (simp add: t traced_open_def)
  show ?thesis using b c by (simp add: a)
qed


section \<open>Properties of \<open>trace\<close> and \<open>intrace\<close>\<close>

lemma finite_not_nan: "xy_isfinite p \<Longrightarrow> \<not> xy_isnan p"
  by (cases p) (auto elim: disfinite.elims)

lemma extends_refl: "extends p p"
  by (simp add: extends_def)

lemma extends_trans: "extends p q \<Longrightarrow> extends q r \<Longrightarrow> extends p r"
  by (auto simp: extends_def)

lemma extends_insert: "xy_isfinite x \<Longrightarrow> extends p (pl_insert x p)"
  by (simp add: extends_def pl_insert_def)

lemma walk_step_extends: "extends (w_ret w) (w_ret (walk_step M tri elev edgep w))"
  by (simp add: walk_step_def Let_def extends_refl extends_insert)

lemma inner_walk_extends: "extends (w_ret w) (w_ret (inner_walk M tri elev edgep w))"
proof (induction M tri elev edgep w rule: inner_walk.induct)
  case (1 M tri elev edgep w)
  let ?w' = "walk_step M tri elev edgep w"
  have st: "extends (w_ret w) (w_ret ?w')" by (rule walk_step_extends)
  show ?case
  proof (cases "0 \<le> w_subnext ?w' \<and> Suc (w_i ?w') < 256")
    case True
    then have "extends (w_ret (?w'\<lparr>w_i := Suc (w_i ?w')\<rparr>))
        (w_ret (inner_walk M tri elev edgep (?w'\<lparr>w_i := Suc (w_i ?w')\<rparr>)))"
      using "1.IH" [of ?w'] by simp
    moreover have "inner_walk M tri elev edgep w = inner_walk M tri elev edgep (?w'\<lparr>w_i := Suc (w_i ?w')\<rparr>)"
      using True by (subst inner_walk.simps) (simp add: Let_def)
    ultimately show ?thesis using st extends_trans by fastforce
  next
    case False
    then have "w_ret (inner_walk M tri elev edgep w) = w_ret ?w'"
      by (subst inner_walk.simps) (auto simp: Let_def)
    then show ?thesis using st by simp
  qed
qed

lemma trace_body_extends:
  assumes "trace_body M elev firstcept s = Inr s'"
  shows "extends (t_ret s) (t_ret s')"
proof -
  let ?w = "inner_walk M (t_tri s) elev (t_edgep s)
                \<lparr>w_subedge = subdir M (t_tri s) (t_edgep s), w_subnext = 0, w_i = 0,
                 w_lastcept = t_lastcept s, w_ret = t_ret s, w_log = t_log s, w_steps = 0\<rparr>"
  have a: "extends (t_ret s) (w_ret ?w)"
    using inner_walk_extends [of "\<lparr>w_subedge = subdir M (t_tri s) (t_edgep s), w_subnext = 0, w_i = 0,
                 w_lastcept = t_lastcept s, w_ret = t_ret s, w_log = t_log s, w_steps = 0\<rparr>" M "t_tri s" elev "t_edgep s"]
    by simp
  have "t_ret s' = w_ret ?w \<or> (\<exists>x. xy_isfinite x \<and> t_ret s' = pl_insert x (w_ret ?w))"
    using assms unfolding trace_body_def Let_def
    by (auto split: if_splits sum.splits)
  then have "extends (w_ret ?w) (t_ret s')"
    using extends_refl extends_insert by metis
  then show ?thesis using a extends_trans by blast
qed

lemma trace_loop_extends:
  "trace_loop M elev firstcept s = Inr s' \<Longrightarrow>
     extends (t_ret s) (t_ret s') \<and> (t_ntri s' = None \<or> t_wasmarked s')"
proof (induction M elev firstcept s rule: trace_loop.induct)
  case (1 M elev firstcept s)
  from "1.prems" obtain s1 where b: "trace_body M elev firstcept s = Inr s1"
    by (subst (asm) trace_loop.simps) (auto split: sum.splits)
  have e1: "extends (t_ret s) (t_ret s1)" using b by (rule trace_body_extends)
  show ?case
  proof (cases "t_ntri s1 \<noteq> None \<and> \<not> t_wasmarked s1")
    case True
    then have "trace_loop M elev firstcept s1 = Inr s'"
      using "1.prems" b by (subst (asm) trace_loop.simps) simp
    then have "extends (t_ret s1) (t_ret s') \<and> (t_ntri s' = None \<or> t_wasmarked s')"
      using "1.IH" [OF b True] by simp
    then show ?thesis using e1 extends_trans by blast
  next
    case False
    then have "s' = s1" using "1.prems" b by (subst (asm) trace_loop.simps) auto
    then show ?thesis using e1 False by auto
  qed
qed


lemma trace_walk_late:
  assumes "trace_walk M K edgep elev = Inr (Inr s)"
  shows "\<exists>t sd. \<not> xy_isnan (contourcept M t sd elev)
           \<and> extends (pl_insert (contourcept M t sd elev) (new_polyline elev)) (t_ret s)
           \<and> (t_ntri s = None \<or> t_wasmarked s)"
proof -
  from assms obtain t nt K1 where f: "\<not> xy_isnan (contourcept M t (subdir M t edgep) elev)"
      "trace_loop M elev (contourcept M t (subdir M t edgep) elev)
         (trace_start elev edgep t nt (contourcept M t (subdir M t edgep) elev) K1) = Inr s"
    unfolding trace_walk_def Let_def
    by (auto split: sum.splits option.splits if_splits)
  have "t_ret (trace_start elev edgep t nt (contourcept M t (subdir M t edgep) elev) K1)
          = pl_insert (contourcept M t (subdir M t edgep) elev) (new_polyline elev)"
    by (simp add: trace_start_def)
  then show ?thesis using trace_loop_extends [OF f(2)] f(1) by auto
qed

lemma trace_walk_early:
  assumes "trace_walk M K edgep elev = Inr (Inl r)"
  shows "tr_poly r = new_polyline elev \<and> tr_log r = [TracingStartsOnNan]"
  using assms unfolding trace_walk_def Let_def
  by (auto split: sum.splits option.splits if_splits)

lemma insert_cepts_finite:
  "list_all xy_isfinite (points ret) \<Longrightarrow>
   list_all xy_isfinite (points (insert_cepts M tri elev ss ret))"
  by (induction ss arbitrary: ret) (simp_all add: Let_def pl_insert_def)

lemma intrace_finite: "list_all xy_isfinite (points (intrace M tri elev))"
  unfolding intrace_def
  by (auto split: prod.splits intro!: insert_cepts_finite simp: new_polyline_def)

text \<open>
  Without any contract on \<open>contourcept\<close>: no point of a traced polyline is a NaN, and
  every point after the first is finite.
\<close>

lemma traced_points_not_nan:
  assumes "trace M K edgep elev = Inr r"
  shows "points (tr_poly r) = []
       \<or> (\<exists>t sd qs. points (tr_poly r) = contourcept M t sd elev # qs
             \<and> \<not> xy_isnan (contourcept M t sd elev) \<and> list_all xy_isfinite qs)"
proof (cases "trace_walk M K edgep elev")
  case (Inl f)
  then show ?thesis using assms by (simp add: trace_def)
next
  case (Inr x)
  show ?thesis
  proof (cases x)
    case (Inl r0)
    then have "r = r0" using assms Inr by (simp add: trace_def)
    then show ?thesis using trace_walk_early [of M K edgep elev r0] Inr Inl
      by (simp add: new_polyline_def)
  next
    case (Inr s)
    then have r: "r = trace_finish s" using assms \<open>trace_walk M K edgep elev = Inr x\<close>
      by (simp add: trace_def)
    obtain t sd qs where f: "\<not> xy_isnan (contourcept M t sd elev)"
        "points (t_ret s) = [contourcept M t sd elev] @ qs" "list_all xy_isfinite qs"
      using trace_walk_late [of M K edgep elev s] Inr \<open>trace_walk M K edgep elev = Inr x\<close>
      by (auto simp: extends_def pl_insert_def new_polyline_def)
    have "points (tr_poly r) = contourcept M t sd elev # qs"
      using r f(2) by (simp add: trace_finish_def pl_open_def)
    then show ?thesis using f by blast
  qed
qed

text \<open>
  Claim C7. When \<open>contourcept\<close> keeps its contract, a point or NaN, every point of every
  polyline returned by \<open>trace\<close> or \<open>intrace\<close> is finite: a crossing point that
  evaluates to NaN is never inserted.
\<close>

theorem traced_points_finite:
  assumes "point_or_nan M"
  shows "(trace M K edgep elev = Inr r \<longrightarrow> list_all xy_isfinite (points (tr_poly r)))
       \<and> list_all xy_isfinite (points (intrace M tri elev))"
proof -
  have "list_all xy_isfinite (points (tr_poly r))" if t: "trace M K edgep elev = Inr r"
  proof -
    from traced_points_not_nan [OF t]
    consider "points (tr_poly r) = []"
      | t sd qs where "points (tr_poly r) = contourcept M t sd elev # qs"
          "\<not> xy_isnan (contourcept M t sd elev)" "list_all xy_isfinite qs"
      by blast
    then show ?thesis
    proof cases
      case 1
      then show ?thesis by simp
    next
      case 2
      have "xy_isfinite (contourcept M t sd elev)"
        using assms 2(2) unfolding point_or_nan_def by blast
      then show ?thesis using 2 by simp
    qed
  qed
  then show ?thesis using intrace_finite by blast
qed

lemmas trace_eval = inner_walk.simps trace_loop.simps walk_step_def trace_body_def trace_def
  trace_walk_def trace_start_def trace_finish_def start_triangle_def handle_edge_def
  handle_side_def mark_def ismarked_def new_polyline_def pl_insert_def pl_open_def xy_ne_def
  Let_def no_marks_def

lemma loop_trace:
  "trace M_loop no_marks 4 (Fin 5) =
     Inr \<lparr>tr_poly = \<lparr>elevation = Fin 5,
             points = [XY (Fin 4) (Fin 0), XY (Fin 8) (Fin 0), XY (Fin 12) (Fin 0),
                       XY (Fin 4) (Fin 0)],
             isopen = False\<rparr>,
          tr_marking = \<lparr>marks = {(0, 0), (2, 0), (1, 0)}, markcalls = [4, 8, 12, 4]\<rparr>,
          tr_log = [], tr_reached = [4, 8, 12, 4]\<rparr>"
  by (simp add: trace_eval M_loop_def, auto)

lemma int_intrace: "points (intrace M_int 0 (Fin 5)) = [XY (Fin 1) (Fin 0)]"
  by (simp add: intrace_def M_int_def upt_rec collect.simps new_polyline_def pl_insert_def Let_def)

lemma loop_contract: "point_or_nan M_loop"
  by (simp add: point_or_nan_def M_loop_def)

lemma int_contract: "point_or_nan M_int"
  by (simp add: point_or_nan_def M_int_def)

text \<open>The closed contour of \<open>M_loop\<close> and the interior contour of \<open>M_int\<close>.\<close>

theorem traced_points_finite_witness:
  "traced_points (trace M_loop no_marks 4 (Fin 5))
     = Some [XY (Fin 4) (Fin 0), XY (Fin 8) (Fin 0), XY (Fin 12) (Fin 0), XY (Fin 4) (Fin 0)]
   \<and> list_all xy_isfinite
       [XY (Fin 4) (Fin 0), XY (Fin 8) (Fin 0), XY (Fin 12) (Fin 0), XY (Fin 4) (Fin 0)]
   \<and> points (intrace M_int 0 (Fin 5)) = [XY (Fin 1) (Fin 0)]
   \<and> list_all xy_isfinite (points (intrace M_int 0 (Fin 5)))"
proof -
  note T = traced_points_finite [OF loop_contract, where K = no_marks and edgep = 4
      and elev = "Fin 5"]
  note U = traced_points_finite [OF int_contract, where tri = 0 and elev = "Fin 5"]
  have a: "traced_points (trace M_loop no_marks 4 (Fin 5))
     = Some [XY (Fin 4) (Fin 0), XY (Fin 8) (Fin 0), XY (Fin 12) (Fin 0), XY (Fin 4) (Fin 0)]"
    by (simp add: loop_trace traced_points_def)
  have b: "list_all xy_isfinite
       [XY (Fin 4) (Fin 0), XY (Fin 8) (Fin 0), XY (Fin 12) (Fin 0), XY (Fin 4) (Fin 0)]"
    using T loop_trace by fastforce
  have c: "list_all xy_isfinite (points (intrace M_int 0 (Fin 5)))"
    using U by blast
  show ?thesis using a b c int_intrace by blast
qed





section \<open>Properties of the marks\<close>

lemma ismarked_mono:
  "ismarked M ep K = Inr True \<Longrightarrow> marks K \<subseteq> marks L \<Longrightarrow> ismarked M ep L = Inr True"
  by (auto simp: ismarked_def split: sum.splits)

lemma all_marked_mono: "all_marked M K eps \<Longrightarrow> marks K \<subseteq> marks L \<Longrightarrow> all_marked M L eps"
  using ismarked_mono by (auto simp: all_marked_def list_all_iff)

lemma all_marked_append:
  "all_marked M K (eps @ eps') \<longleftrightarrow> all_marked M K eps \<and> all_marked M K eps'"
  by (simp add: all_marked_def)

lemma mark_marks:
  assumes "mark M ep K = Inr L"
  shows "marks K \<subseteq> marks L \<and> ismarked M ep L = Inr True"
proof -
  obtain i where i: "handle_edge M ep = Inr i"
      "marks L = insert (i, handle_side ep) (marks K)"
    using mark_Inr [OF assms] by blast
  then show ?thesis by (auto simp: ismarked_def)
qed

text \<open>
  One turn of the outer loop keeps the marks, and it marks the handle it comes to: if
  every handle reached before the turn is marked, so is every handle reached after it.
\<close>

lemma trace_body_marks:
  assumes "trace_body M elev firstcept s = Inr s'"
  shows "marks (t_marking s) \<subseteq> marks (t_marking s')
       \<and> (all_marked M (t_marking s) (t_reached s)
            \<longrightarrow> all_marked M (t_marking s') (t_reached s'))"
proof -
  from trace_body_cases [OF assms]
  consider "t_marking s' = t_marking s" "t_reached s' = t_reached s"
    | ep K where "mark M ep (t_marking s) = Inr K" "t_marking s' = K"
        "t_reached s' = t_reached s @ [ep]"
    by blast
  then show ?thesis
  proof cases
    case 1
    then show ?thesis by simp
  next
    case 2
    have m: "marks (t_marking s) \<subseteq> marks K" "ismarked M ep K = Inr True"
      using mark_marks [OF 2(1)] by simp_all
    have "all_marked M K (t_reached s @ [ep])" if "all_marked M (t_marking s) (t_reached s)"
      using all_marked_mono [OF that m(1)] m(2) by (simp add: all_marked_def)
    then show ?thesis using 2 m(1) by simp
  qed
qed

lemma trace_loop_marks:
  "trace_loop M elev firstcept s = Inr s' \<Longrightarrow>
     marks (t_marking s) \<subseteq> marks (t_marking s')
     \<and> (all_marked M (t_marking s) (t_reached s)
          \<longrightarrow> all_marked M (t_marking s') (t_reached s'))"
proof (induction M elev firstcept s rule: trace_loop.induct)
  case (1 M elev firstcept s)
  from "1.prems" obtain s1 where b: "trace_body M elev firstcept s = Inr s1"
    by (subst (asm) trace_loop.simps) (auto split: sum.splits)
  note g1 = trace_body_marks [OF b]
  show ?case
  proof (cases "t_ntri s1 \<noteq> None \<and> \<not> t_wasmarked s1")
    case True
    then have "trace_loop M elev firstcept s1 = Inr s'"
      using "1.prems" b by (subst (asm) trace_loop.simps) simp
    then have "marks (t_marking s1) \<subseteq> marks (t_marking s')
     \<and> (all_marked M (t_marking s1) (t_reached s1)
          \<longrightarrow> all_marked M (t_marking s') (t_reached s'))"
      using "1.IH" [OF b True] by simp
    then show ?thesis using g1 by blast
  next
    case False
    then have "s' = s1" using "1.prems" b by (subst (asm) trace_loop.simps) auto
    then show ?thesis using g1 by simp
  qed
qed

lemma trace_walk_marks:
  assumes "trace_walk M K ep elev = Inr x"
  shows "\<exists>K1. mark M ep K = Inr K1
            \<and> (case x of
                 Inl r \<Rightarrow> tr_marking r = K1 \<and> tr_reached r = [ep]
               | Inr s \<Rightarrow> marks K1 \<subseteq> marks (t_marking s)
                          \<and> (all_marked M K1 [ep] \<longrightarrow> all_marked M (t_marking s) (t_reached s)))"
  using assms unfolding trace_walk_def Let_def
  by (auto split: sum.splits option.splits if_splits dest!: trace_loop_marks
      simp: trace_start_def)

text \<open>A trace keeps the marks and marks every handle it comes to, its seed first.\<close>

lemma trace_marks:
  assumes "trace M K ep elev = Inr r"
  shows "marks K \<subseteq> marks (tr_marking r) \<and> all_marked M (tr_marking r) (tr_reached r)
       \<and> ismarked M ep (tr_marking r) = Inr True"
proof -
  from assms obtain x where x: "trace_walk M K ep elev = Inr x"
    unfolding trace_def by (auto split: sum.splits)
  obtain K1 where k: "mark M ep K = Inr K1"
      "case x of
         Inl r \<Rightarrow> tr_marking r = K1 \<and> tr_reached r = [ep]
       | Inr s \<Rightarrow> marks K1 \<subseteq> marks (t_marking s)
                  \<and> (all_marked M K1 [ep] \<longrightarrow> all_marked M (t_marking s) (t_reached s))"
    using trace_walk_marks [OF x] by blast
  have g: "marks K \<subseteq> marks K1" "ismarked M ep K1 = Inr True" using mark_marks [OF k(1)] by simp_all
  then have s: "all_marked M K1 [ep]" by (simp add: all_marked_def)
  have "marks K1 \<subseteq> marks (tr_marking r) \<and> all_marked M (tr_marking r) (tr_reached r)"
  proof (cases x)
    case (Inl r0)
    then have "r = r0" using assms x by (simp add: trace_def)
    then show ?thesis using k(2) Inl s by simp
  next
    case (Inr s1)
    then have "r = trace_finish s1" using assms x by (simp add: trace_def)
    then show ?thesis using k(2) Inr s by (simp add: trace_finish_def)
  qed
  then show ?thesis using g ismarked_mono by blast
qed

lemma boundary_traces_marks:
  "boundary_traces M dedup elev eps sw = Inr sw' \<Longrightarrow>
   all_marked M (sw_marking sw) (sw_reached sw) \<Longrightarrow>
     marks (sw_marking sw) \<subseteq> marks (sw_marking sw')
     \<and> all_marked M (sw_marking sw') (sw_reached sw')
     \<and> all_marked M (sw_marking sw') eps"
proof (induction eps arbitrary: sw)
  case Nil
  then show ?case by (simp add: all_marked_def)
next
  case (Cons ep eps)
  from Cons.prems(1) obtain b where b: "ismarked M ep (sw_marking sw) = Inr b"
    by (auto split: sum.splits)
  show ?case
  proof (cases b)
    case True
    then have bt: "boundary_traces M dedup elev eps sw = Inr sw'" using Cons.prems(1) b by simp
    note i = Cons.IH [OF bt Cons.prems(2)]
    have "ismarked M ep (sw_marking sw') = Inr True"
      using ismarked_mono [of M ep "sw_marking sw" "sw_marking sw'"] i b True by simp
    then show ?thesis using i by (simp add: all_marked_def)
  next
    case False
    then obtain r where r: "trace M (sw_marking sw) ep elev = Inr r"
      using Cons.prems(1) b by (auto split: sum.splits)
    let ?sw1 = "\<lparr>sw_marking = tr_marking r,
                  sw_contours = sw_contours sw @ [dedup (tr_poly r)],
                  sw_log = sw_log sw @ tr_log r,
                  sw_reached = sw_reached sw @ tr_reached r\<rparr>"
    have bt: "boundary_traces M dedup elev eps ?sw1 = Inr sw'"
      using Cons.prems(1) b False r by simp
    have t: "marks (sw_marking sw) \<subseteq> marks (tr_marking r)"
        "all_marked M (tr_marking r) (tr_reached r)" "ismarked M ep (tr_marking r) = Inr True"
      using trace_marks [OF r] by simp_all
    have "all_marked M (sw_marking ?sw1) (sw_reached ?sw1)"
      using all_marked_mono [OF Cons.prems(2) t(1)] t(2) by (simp add: all_marked_append)
    note i = Cons.IH [OF bt this]
    have "ismarked M ep (sw_marking sw') = Inr True"
      using ismarked_mono [of M ep "tr_marking r" "sw_marking sw'"] i t(3) by simp
    then show ?thesis using i t(1) by (auto simp: all_marked_def)
  qed
qed

text \<open>
  Claim C6, as amended. After the loop over the seeds of one elevation, every handle
  that \<open>contstarts\<close> returned for it is marked, so scanning the seeds again without
  clearing the marks finds no unmarked seed; and every handle that a trace of the
  sweep came to (its seed, and each nonzero handle that \<open>edgepart\<close> gave where an inner
  walk ended) is marked. A handle can be passed to \<open>mark\<close> more than once.
\<close>

theorem seeds_marked_after_sweep:
  assumes "contstarts M elev = Inr cstarts"
    and "roughcontours_level M dedup elev sw = Inr sw'"
  shows "list_all (\<lambda>ep. ismarked M ep (sw_marking sw') = Inr True) cstarts
       \<and> filter (\<lambda>ep. ismarked M ep (sw_marking sw') \<noteq> Inr True) cstarts = []
       \<and> list_all (\<lambda>ep. ismarked M ep (sw_marking sw') = Inr True) (sw_reached sw')"
proof -
  let ?sw0 = "sw\<lparr>sw_marking := clearmarks (sw_marking sw), sw_reached := []\<rparr>"
  have b: "boundary_traces M dedup elev cstarts ?sw0 = Inr sw'"
    using assms by (simp add: roughcontours_level_def)
  have "all_marked M (sw_marking ?sw0) (sw_reached ?sw0)" by (simp add: all_marked_def)
  then have r: "all_marked M (sw_marking sw') (sw_reached sw')"
    and s: "all_marked M (sw_marking sw') cstarts"
    using boundary_traces_marks [OF b] by simp_all
  have "filter (\<lambda>ep. ismarked M ep (sw_marking sw') \<noteq> Inr True) cstarts = []"
    using s by (simp add: all_marked_def list_all_iff filter_empty_conv)
  then show ?thesis using s r by (simp add: all_marked_def)
qed

lemma loop_contstarts: "contstarts M_loop (Fin 5) = Inr [4, 8, 12]"
  by (simp add: contstarts_def M_loop_def edge_address_def upt_rec Let_def)

lemma loop_fields:
  "length (edges M_loop) = 6" "subdir M_loop = (\<lambda>t ep. int ep)"
  by (simp_all add: M_loop_def)

lemma loop_level:
  "\<exists>sw'. roughcontours_level M_loop id (Fin 5) empty_sweep = Inr sw'
       \<and> markcalls (sw_marking sw') = [4, 8, 12, 4] \<and> sw_reached sw' = [4, 8, 12, 4]"
  by (simp add: roughcontours_level_def loop_contstarts empty_sweep_def clearmarks_def
      loop_trace [unfolded no_marks_def] ismarked_def handle_edge_def handle_side_def loop_fields)

theorem seeds_marked_after_sweep_witness:
  "\<exists>sw'. roughcontours_level M_loop id (Fin 5) empty_sweep = Inr sw'
     \<and> sw_reached sw' = [4, 8, 12, 4]
     \<and> list_all (\<lambda>ep. ismarked M_loop ep (sw_marking sw') = Inr True) [4, 8, 12]
     \<and> filter (\<lambda>ep. ismarked M_loop ep (sw_marking sw') \<noteq> Inr True) [4, 8, 12] = []
     \<and> list_all (\<lambda>ep. ismarked M_loop ep (sw_marking sw') = Inr True) [4, 8, 12, 4]"
proof -
  obtain sw' where sw: "roughcontours_level M_loop id (Fin 5) empty_sweep = Inr sw'"
      "sw_reached sw' = [4, 8, 12, 4]"
    using loop_level by blast
  show ?thesis
    using seeds_marked_after_sweep [OF loop_contstarts sw(1)] sw by auto
qed

text \<open>
  Claim C6 as stated fails on \<open>M_loop\<close>: the trace from the seed 4 marks it at the start
  and marks it again when the contour comes back to it, so handle 4 is marked twice in
  the sweep.
\<close>

theorem closing_handle_marked_twice_counterexample:
  "sweep_markcalls (roughcontours_level M_loop id (Fin 5) empty_sweep) = Some [4, 8, 12, 4]
   \<and> count_list [4, 8, 12, 4] (4::nat) = 2"
proof -
  obtain sw' where sw: "roughcontours_level M_loop id (Fin 5) empty_sweep = Inr sw'"
      "markcalls (sw_marking sw') = [4, 8, 12, 4]"
    using loop_level by blast
  then show ?thesis by (simp add: sweep_markcalls_def)
qed

end
